theory Spec2Isabelle
  imports Complex_Main "HOL-Library.Multiset" "HOL-Library.Log_Nat"
begin

section \<open>Memory and floating-point operations\<close>

text \<open>
  A \<open>double*\<close> is an address counted in elements, \<open>p[i]\<close> is the cell \<open>p + i\<close>, and
  \<open>NULL\<close> is address 0. The heap maps the allocated cells to their contents; a read or
  a write of a cell that is not allocated is a fault, so every access of the code is a
  branch of the model.
\<close>

type_synonym addr = nat

type_synonym 'd heap = "addr \<rightharpoonup> 'd"

datatype fault = Segfault addr | Uninitialised | Aborted

text \<open>
  The arithmetic of \<open>double\<close> is a parameter of the kernels: the operations the
  expressions of \<open>main.c\<close> use, on whatever representation \<open>'d\<close> of a double (its 64
  bits, for example). What is proved for every such table of operations does not depend
  on rounding, overflow or the treatment of NaN.
\<close>

record 'd fpu =
  fadd :: "'d \<Rightarrow> 'd \<Rightarrow> 'd"
  fsub :: "'d \<Rightarrow> 'd \<Rightarrow> 'd"
  fmul :: "'d \<Rightarrow> 'd \<Rightarrow> 'd"
  fdiv :: "'d \<Rightarrow> 'd \<Rightarrow> 'd"
  of_long :: "int \<Rightarrow> 'd"

section \<open>The OpenMP loops\<close>

text \<open>
  \<open>for (int i = 0; i < n; i++)\<close>: the iterations are \<open>0, ..., n - 1\<close>, none when
  \<open>n \<le> 0\<close>. The counter never overflows, since it stays below \<open>n\<close>.
\<close>

definition iterations :: "int \<Rightarrow> nat list" where
  "iterations n = [0..<nat n]"

text \<open>
  The meaning of the pragma's \<open>schedule(static)\<close>: the index range is cut into one
  contiguous block per thread, the sizes differing by at most one. Thread \<open>k\<close> of \<open>t\<close>
  gets \<open>n div t\<close> iterations, and one more when \<open>k < n mod t\<close>.
\<close>

definition block_start :: "nat \<Rightarrow> nat \<Rightarrow> nat \<Rightarrow> nat" where
  "block_start n t k = k * (n div t) + min k (n mod t)"

definition static_blocks :: "nat \<Rightarrow> nat \<Rightarrow> nat list list" where
  "static_blocks n t = map (\<lambda>k. [block_start n t k..<block_start n t (Suc k)]) [0..<t]"

text \<open>
  The meaning of the pragma's \<open>schedule(dynamic, 100)\<close>: the index range is cut into
  chunks of 100 consecutive indices (the last one shorter); a worker that is free pulls
  the next chunk. \<open>asg\<close> names the worker that pulled each chunk, and the
  work of worker \<open>w\<close> is its chunks, in the order it pulled them.
\<close>

definition chunk_size :: nat where
  "chunk_size = 100"

definition dynamic_chunks :: "nat \<Rightarrow> nat list list" where
  "dynamic_chunks n =
     map (\<lambda>c. [c * chunk_size..<min n (Suc c * chunk_size)])
       [0..<(n + chunk_size - 1) div chunk_size]"

definition worker_queue :: "nat list list \<Rightarrow> nat list \<Rightarrow> nat \<Rightarrow> nat list" where
  "worker_queue chunks asg w = concat (map fst (filter (\<lambda>cw. snd cw = w) (zip chunks asg)))"

definition dynamic_work :: "nat \<Rightarrow> nat \<Rightarrow> nat list \<Rightarrow> nat list list" where
  "dynamic_work n t asg = map (worker_queue (dynamic_chunks n) asg) [0..<t]"

text \<open>
  The threads of a team run concurrently, each through its own iterations in order.
  An execution of the loop is an interleaving of the threads' iteration lists:
  \<open>interleaves ws ord\<close> says that \<open>ord\<close> is one.
\<close>

fun interleaves :: "nat list list \<Rightarrow> nat list \<Rightarrow> bool" where
  "interleaves ws [] = list_all (\<lambda>w. w = []) ws"
| "interleaves ws (i # ord) =
     list_ex (\<lambda>k. ws ! k \<noteq> [] \<and> hd (ws ! k) = i \<and> interleaves (ws[k := tl (ws ! k)]) ord)
       [0..<length ws]"

text \<open>
  What the OpenMP runtime decides during a run: the team it forms for
  \<open>num_threads(k)\<close> (the number of its threads, or \<open>None\<close> when the runtime ends the
  program instead), which worker pulls which chunk of a dynamic loop (given the number
  of chunks and the team size), and how the iterations of the team's threads
  interleave.
\<close>

record omp =
  team :: "int \<Rightarrow> nat option"
  pull :: "nat \<Rightarrow> nat \<Rightarrow> nat list"
  interleave :: "nat list list \<Rightarrow> nat list"

text \<open>
  The loop itself: the iterations take effect in the order of the execution, and the
  first fault ends it. An iteration is one step of an execution: the body of each of
  the three loops of \<open>main.c\<close> reads and writes only the cells of its own index
  (and, in the initializer, draws from the generator), and the pragma shares no other
  variable between iterations.
\<close>

fun parallel_for :: "(nat \<Rightarrow> 's \<Rightarrow> fault + 's) \<Rightarrow> nat list \<Rightarrow> 's \<Rightarrow> fault + 's" where
  "parallel_for body [] s = Inr s"
| "parallel_for body (i # ord) s =
     (case body i s of Inl e \<Rightarrow> Inl e | Inr s' \<Rightarrow> parallel_for body ord s')"

text \<open>The execution of a loop of \<open>n\<close> iterations by a team of \<open>t\<close> threads.\<close>

definition static_order :: "omp \<Rightarrow> int \<Rightarrow> nat \<Rightarrow> nat list" where
  "static_order rt n t = interleave rt (static_blocks (nat n) t)"

definition dynamic_order :: "omp \<Rightarrow> int \<Rightarrow> nat \<Rightarrow> nat list" where
  "dynamic_order rt n t =
     interleave rt
       (dynamic_work (nat n) t (pull rt (length (dynamic_chunks (nat n))) t))"

text \<open>
  OpenMP requires the expression of \<open>num_threads\<close> to be positive, and the team of
  \<open>num_threads(k)\<close> with \<open>k \<ge> 1\<close> has \<open>k\<close> threads. For a request below 1 nothing
  is specified: a runtime may form a team of its own choice (GNU's takes its default
  team for 0) or end the program (GNU's does for a negative request). A run conforms to
  OpenMP when a team was formed, with at least one thread and with the requested
  number from 1 on, when the execution is an interleaving of the work of the team,
  and, for a dynamic loop, when every chunk was pulled by a worker of the team.
\<close>

definition static_ok :: "omp \<Rightarrow> int \<Rightarrow> int \<Rightarrow> bool" where
  "static_ok rt n threads =
     (case team rt threads of
        None \<Rightarrow> False
      | Some t \<Rightarrow>
          0 < t \<and> (1 \<le> threads \<longrightarrow> t = nat threads) \<and>
          interleaves (static_blocks (nat n) t) (static_order rt n t))"

definition dynamic_ok :: "omp \<Rightarrow> int \<Rightarrow> int \<Rightarrow> bool" where
  "dynamic_ok rt n threads =
     (case team rt threads of
        None \<Rightarrow> False
      | Some t \<Rightarrow>
          0 < t \<and> (1 \<le> threads \<longrightarrow> t = nat threads) \<and>
          (let asg = pull rt (length (dynamic_chunks (nat n))) t
           in length asg = length (dynamic_chunks (nat n)) \<and>
              list_all (\<lambda>w. w < t) asg \<and>
              interleaves (dynamic_work (nat n) t asg) (dynamic_order rt n t)))"

section \<open>The kernels\<close>

text \<open>\<open>y[i] = y[i] + x[i]*a;\<close>\<close>

definition daxpy_iter :: "'d fpu \<Rightarrow> addr \<Rightarrow> addr \<Rightarrow> 'd \<Rightarrow> nat \<Rightarrow> 'd heap \<Rightarrow> fault + 'd heap" where
  "daxpy_iter fp x y a i h =
     (case h (y + i) of
        None \<Rightarrow> Inl (Segfault (y + i))
      | Some yi \<Rightarrow>
          (case h (x + i) of
             None \<Rightarrow> Inl (Segfault (x + i))
           | Some xi \<Rightarrow> Inr (h(y + i \<mapsto> fadd fp yi (fmul fp xi a)))))"

text \<open>The loop without the pragma: the sequential reference.\<close>

definition daxpy_seq :: "'d fpu \<Rightarrow> addr \<Rightarrow> addr \<Rightarrow> 'd \<Rightarrow> int \<Rightarrow> 'd heap \<Rightarrow> fault + 'd heap" where
  "daxpy_seq fp x y a n h = parallel_for (daxpy_iter fp x y a) (iterations n) h"

definition calculate_daxpy ::
  "'d fpu \<Rightarrow> omp \<Rightarrow> addr \<Rightarrow> addr \<Rightarrow> 'd \<Rightarrow> int \<Rightarrow> int \<Rightarrow> 'd heap \<Rightarrow> fault + 'd heap" where
  "calculate_daxpy fp rt x y a n threads h =
     (case team rt threads of
        None \<Rightarrow> Inl Aborted
      | Some t \<Rightarrow> parallel_for (daxpy_iter fp x y a) (static_order rt n t) h)"

definition calculate_daxpy_dynamic ::
  "'d fpu \<Rightarrow> omp \<Rightarrow> addr \<Rightarrow> addr \<Rightarrow> 'd \<Rightarrow> int \<Rightarrow> int \<Rightarrow> 'd heap \<Rightarrow> fault + 'd heap" where
  "calculate_daxpy_dynamic fp rt x y a n threads h =
     (case team rt threads of
        None \<Rightarrow> Inl Aborted
      | Some t \<Rightarrow> parallel_for (daxpy_iter fp x y a) (dynamic_order rt n t) h)"

text \<open>
  A vector of length \<open>n\<close> at \<open>p\<close>: the cells \<open>p, ..., p + n - 1\<close> are allocated. Two
  vectors are separate when their cells do not overlap, as two blocks of \<open>malloc\<close> are.
\<close>

definition vector :: "'d heap \<Rightarrow> addr \<Rightarrow> int \<Rightarrow> bool" where
  "vector h p n = (\<forall>i \<in> set (iterations n). h (p + i) \<noteq> None)"

definition separate :: "addr \<Rightarrow> addr \<Rightarrow> int \<Rightarrow> bool" where
  "separate x y n = (x + nat n \<le> y \<or> y + nat n \<le> x)"

text \<open>The heap the sequential algorithm leaves: \<open>y[i] + x[i]*a\<close> in every \<open>y[i]\<close>.\<close>

definition daxpy_result :: "'d fpu \<Rightarrow> addr \<Rightarrow> addr \<Rightarrow> 'd \<Rightarrow> int \<Rightarrow> 'd heap \<Rightarrow> 'd heap" where
  "daxpy_result fp x y a n h =
     (\<lambda>p. if y \<le> p \<and> p < y + nat n
          then Some (fadd fp (the (h p)) (fmul fp (the (h (x + (p - y)))) a))
          else h p)"

section \<open>The vector initializer and the scalar source\<close>

text \<open>
  \<open>rand()\<close> is the C library's: a function from the generator's state to the value
  returned and the next state. \<open>arr[i] = rand();\<close> converts the \<open>int\<close> to a double.
  The loop has no schedule clause; the model takes the static schedule, the default of
  the usual runtimes.
\<close>

type_synonym rng = "nat \<Rightarrow> int \<times> nat"

definition init_iter ::
  "'d fpu \<Rightarrow> rng \<Rightarrow> addr \<Rightarrow> nat \<Rightarrow> 'd heap \<times> nat \<Rightarrow> fault + 'd heap \<times> nat" where
  "init_iter fp rand arr i s =
     (case s of (h, seed) \<Rightarrow>
        (case rand seed of (v, seed') \<Rightarrow>
           (case h (arr + i) of
              None \<Rightarrow> Inl (Segfault (arr + i))
            | Some _ \<Rightarrow> Inr (h(arr + i \<mapsto> of_long fp v), seed'))))"

definition initialize_array ::
  "'d fpu \<Rightarrow> omp \<Rightarrow> rng \<Rightarrow> addr \<Rightarrow> int \<Rightarrow> int \<Rightarrow> 'd heap \<times> nat \<Rightarrow> fault + 'd heap \<times> nat" where
  "initialize_array fp rt rand arr n threads s =
     (case team rt threads of
        None \<Rightarrow> Inl Aborted
      | Some t \<Rightarrow> parallel_for (init_iter fp rand arr) (static_order rt n t) s)"

definition initialize_scalar :: "'d fpu \<Rightarrow> rng \<Rightarrow> nat \<Rightarrow> 'd \<times> nat" where
  "initialize_scalar fp rand seed = (case rand seed of (v, seed') \<Rightarrow> (of_long fp v, seed'))"

section \<open>The timer\<close>

record timespec =
  tv_sec :: int
  tv_nsec :: int

text \<open>
  \<open>(((double) ts->tv_sec) * 1000.0) + (((double) ts->tv_nsec) / 1000000.0)\<close>. The
  literals \<open>1000.0\<close> and \<open>1000000.0\<close> are the doubles of the integers 1000 and 1000000.
\<close>

definition ts_to_ms :: "'d fpu \<Rightarrow> timespec \<Rightarrow> 'd" where
  "ts_to_ms fp ts =
     fadd fp (fmul fp (of_long fp (tv_sec ts)) (of_long fp 1000))
             (fdiv fp (of_long fp (tv_nsec ts)) (of_long fp 1000000))"

text \<open>
  The spec's words for the wall time: each timestamp is converted to milliseconds on its
  own (seconds times 1000 plus nanoseconds over 1,000,000), then start is subtracted
  from finish.
\<close>

definition millis_spec :: "'d fpu \<Rightarrow> int \<Rightarrow> int \<Rightarrow> 'd" where
  "millis_spec fp seconds nanoseconds =
     fadd fp (fmul fp (of_long fp seconds) (of_long fp 1000))
             (fdiv fp (of_long fp nanoseconds) (of_long fp 1000000))"

definition wall_time_spec :: "'d fpu \<Rightarrow> timespec \<Rightarrow> timespec \<Rightarrow> 'd" where
  "wall_time_spec fp start finish =
     fsub fp (millis_spec fp (tv_sec finish) (tv_nsec finish))
             (millis_spec fp (tv_sec start) (tv_nsec start))"

section \<open>Binary64 arithmetic on finite values\<close>

text \<open>
  The doubles of a C implementation with IEEE 754 arithmetic, in the default rounding
  mode: a finite double is the real number it denotes, and an operation returns the
  exact result rounded to the nearest double, ties to the even significand. A double
  has 53 significant bits, and the exponent of a subnormal is that of the smallest
  normal number. Infinities and NaN are outside this model: it is meant for results
  below \<open>2^1024\<close> and for divisors other than zero, which is where the timer's and the
  trial's values are.
\<close>

definition rne :: "real \<Rightarrow> int" where
  "rne r =
     (let f = \<lfloor>r\<rfloor>; d = r - of_int f
      in if d < 1 / 2 then f else if 1 / 2 < d then f + 1 else if even f then f else f + 1)"

text \<open>The exponent \<open>e\<close> of \<open>r \<noteq> 0\<close>: \<open>2^e \<le> |r| < 2^(e + 1)\<close>.\<close>

definition ilog2 :: "real \<Rightarrow> int" where
  "ilog2 r = (if 1 \<le> \<bar>r\<bar> then bitlen \<lfloor>\<bar>r\<bar>\<rfloor> - 1 else - bitlen (\<lceil>1 / \<bar>r\<bar>\<rceil> - 1))"

definition ulp :: "real \<Rightarrow> real" where
  "ulp r = 2 powi (max (ilog2 r) (- 1022) - 52)"

definition round64 :: "real \<Rightarrow> real" where
  "round64 r = (if r = 0 then 0 else of_int (rne (r / ulp r)) * ulp r)"

definition binary64 :: "real fpu" where
  "binary64 =
     \<lparr> fadd = (\<lambda>a b. round64 (a + b)),
       fsub = (\<lambda>a b. round64 (a - b)),
       fmul = (\<lambda>a b. round64 (a * b)),
       fdiv = (\<lambda>a b. round64 (a / b)),
       of_long = (\<lambda>i. round64 (of_int i)) \<rparr>"

section \<open>The trial loop\<close>

text \<open>
  What \<open>main\<close> takes from its environment: the arithmetic of doubles, the OpenMP
  runtime, \<open>rand\<close>, \<open>time(NULL)\<close>, the readings of \<open>clock()\<close> and of
  \<open>clock_gettime\<close> (the k-th reading of the run), \<open>CLOCKS_PER_SEC\<close>, the number of
  doubles the heap can hold, and the contents of fresh memory.
\<close>

record 'd env =
  dbl :: "'d fpu"
  openmp :: omp
  rand :: rng
  time :: nat
  clock :: "nat \<Rightarrow> int"
  clock_gettime :: "nat \<Rightarrow> timespec"
  clocks_per_sec :: int
  heap_cells :: nat
  fresh :: 'd

text \<open>The calls of \<open>main\<close>, in the order it makes them, with their arguments.\<close>

datatype 'd event =
    Srand nat
  | Printf string
  | Scanf "int option"
  | Initialize_scalar
  | Malloc nat addr
  | Initialize_array addr int int
  | Clock
  | Clock_gettime
  | Calculate_daxpy addr addr 'd int int
  | Calculate_daxpy_dynamic addr addr 'd int int
  | Ts_to_ms timespec
  | Print_daxpy addr int 'd 'd
  | Free addr

text \<open>
  The state of a run: the integers still to be read from standard input (what precedes
  the end of the input or the first token that is not an integer: \<open>scanf("%d")\<close> stores
  nothing from there on and leaves its variable as it was), the generator's state, the
  heap with its next free cell and the sizes of the live blocks, the number of clock
  readings so far, the three variables of \<open>main\<close> and the calls made. \<open>dyn_or_stc\<close> has
  no value until a \<open>scanf\<close> stores one.
\<close>

record 'd state =
  stdin :: "int list"
  seed :: nat
  mem :: "'d heap"
  brk :: addr
  blocks :: "addr \<rightharpoonup> nat"
  ticks :: nat
  dyn_or_stc :: "int option"
  thread_count :: int
  vec_n :: int
  calls :: "'d event list"

definition call :: "'d event \<Rightarrow> 'd state \<Rightarrow> 'd state" where
  "call ev s = s\<lparr>calls := calls s @ [ev]\<rparr>"

definition printf :: "string \<Rightarrow> 'd state \<Rightarrow> 'd state" where
  "printf text s = call (Printf text) s"

definition scanf :: "'d state \<Rightarrow> int option \<times> 'd state" where
  "scanf s =
     (case stdin s of
        [] \<Rightarrow> (None, call (Scanf None) s)
      | v # rest \<Rightarrow> (Some v, call (Scanf (Some v)) (s\<lparr>stdin := rest\<rparr>)))"

text \<open>
  \<open>malloc(sizeof(double) * n)\<close>: the product is computed in \<open>size_t\<close>, 64 bits without
  sign, so a negative \<open>n\<close> asks for nearly \<open>2^64\<close> bytes. A request the heap cannot hold
  returns \<open>NULL\<close>; one it can hold returns the next free cells, whose contents are
  whatever fresh memory holds. \<open>free(NULL)\<close> does nothing.
\<close>

definition size_bytes :: "int \<Rightarrow> nat" where
  "size_bytes n = nat ((8 * n) mod 2 ^ 64)"

definition malloc :: "'d env \<Rightarrow> nat \<Rightarrow> 'd state \<Rightarrow> addr \<times> 'd state" where
  "malloc e bytes s =
     (let k = bytes div 8; p = brk s
      in if p + k \<le> heap_cells e
         then (p, call (Malloc bytes p)
                 (s\<lparr>mem := (\<lambda>q. if p \<le> q \<and> q < p + k then Some (fresh e) else mem s q),
                    brk := p + max k 1,
                    blocks := (blocks s)(p \<mapsto> k)\<rparr>))
         else (0, call (Malloc bytes 0) s))"

definition free :: "addr \<Rightarrow> 'd state \<Rightarrow> 'd state" where
  "free p s =
     call (Free p)
       (case blocks s p of
          None \<Rightarrow> s
        | Some k \<Rightarrow>
            s\<lparr>mem := (\<lambda>q. if p \<le> q \<and> q < p + k then None else mem s q),
              blocks := (blocks s)(p := None)\<rparr>)"

definition read_clock :: "'d env \<Rightarrow> 'd state \<Rightarrow> int \<times> 'd state" where
  "read_clock e s = (clock e (ticks s), call Clock (s\<lparr>ticks := Suc (ticks s)\<rparr>))"

definition read_clock_gettime :: "'d env \<Rightarrow> 'd state \<Rightarrow> timespec \<times> 'd state" where
  "read_clock_gettime e s =
     (clock_gettime e (ticks s), call Clock_gettime (s\<lparr>ticks := Suc (ticks s)\<rparr>))"

definition prompt_mode :: string where
  "prompt_mode = ''Run in static or dynamic mode? 0 is static: '' @ [CHR 0x0A]"

definition prompt_threads :: string where
  "prompt_threads = ''Please input the number of threads: '' @ [CHR 0x0A]"

definition prompt_size :: string where
  "prompt_size = ''Please input the size of the y and x vectors: '' @ [CHR 0x0A]"

definition goodbye :: string where
  "goodbye = ''Goodbye!'' @ [CHR 0x0A]"

text \<open>The three prompts of an iteration, lines 127 to 132.\<close>

definition read_parameters :: "'d state \<Rightarrow> 'd state" where
  "read_parameters s =
     (let s = printf prompt_mode s;
          (v, s) = scanf s;
          s = (case v of None \<Rightarrow> s | Some m \<Rightarrow> s\<lparr>dyn_or_stc := Some m\<rparr>);
          s = printf prompt_threads s;
          (v, s) = scanf s;
          s = (case v of None \<Rightarrow> s | Some t \<Rightarrow> s\<lparr>thread_count := t\<rparr>);
          s = printf prompt_size s;
          (v, s) = scanf s
      in (case v of None \<Rightarrow> s | Some k \<Rightarrow> s\<lparr>vec_n := k\<rparr>))"

text \<open>The calls to the two functions of the repository that work on the heap.\<close>

definition call_initialize_array :: "'d env \<Rightarrow> addr \<Rightarrow> 'd state \<Rightarrow> fault + 'd state" where
  "call_initialize_array e arr s =
     (case initialize_array (dbl e) (openmp e) (rand e) arr (vec_n s) (thread_count s)
             (mem s, seed s) of
        Inl f \<Rightarrow> Inl f
      | Inr (h, sd) \<Rightarrow>
          Inr (call (Initialize_array arr (vec_n s) (thread_count s)) (s\<lparr>mem := h, seed := sd\<rparr>)))"

definition call_kernel :: "'d env \<Rightarrow> addr \<Rightarrow> addr \<Rightarrow> 'd \<Rightarrow> 'd state \<Rightarrow> fault + 'd state" where
  "call_kernel e x y a s =
     (case dyn_or_stc s of
        None \<Rightarrow> Inl Uninitialised
      | Some m \<Rightarrow>
          if m = 0
          then (case calculate_daxpy (dbl e) (openmp e) x y a (vec_n s) (thread_count s) (mem s) of
                  Inl f \<Rightarrow> Inl f
                | Inr h \<Rightarrow>
                    Inr (call (Calculate_daxpy x y a (vec_n s) (thread_count s)) (s\<lparr>mem := h\<rparr>)))
          else (case calculate_daxpy_dynamic (dbl e) (openmp e) x y a (vec_n s) (thread_count s)
                       (mem s) of
                  Inl f \<Rightarrow> Inl f
                | Inr h \<Rightarrow>
                    Inr (call (Calculate_daxpy_dynamic x y a (vec_n s) (thread_count s))
                           (s\<lparr>mem := h\<rparr>))))"

text \<open>
  After the kernel, lines 151 to 162: the second pair of clock readings, the two
  durations, the report and the two \<open>free\<close>.
\<close>

definition report :: "'d env \<Rightarrow> addr \<Rightarrow> addr \<Rightarrow> int \<Rightarrow> timespec \<Rightarrow> 'd state \<Rightarrow> 'd state" where
  "report e x y begin start s =
     (let (end, s) = read_clock e s;
          (finish, s) = read_clock_gettime e s;
          time_spent = fdiv (dbl e) (of_long (dbl e) (end - begin)) (of_long (dbl e) (clocks_per_sec e));
          s = call (Ts_to_ms start) s;
          start_time = ts_to_ms (dbl e) start;
          s = call (Ts_to_ms finish) s;
          finish_time = ts_to_ms (dbl e) finish;
          wall_time = fsub (dbl e) finish_time start_time;
          s = call (Print_daxpy y (vec_n s) time_spent wall_time) s;
          s = free x s
      in free y s)"

text \<open>The body of \<open>if (n != -1)\<close>, lines 134 to 162.\<close>

definition trial :: "'d env \<Rightarrow> 'd state \<Rightarrow> fault + 'd state" where
  "trial e s =
     (let (a, sd) = initialize_scalar (dbl e) (rand e) (seed s);
          s = call Initialize_scalar (s\<lparr>seed := sd\<rparr>);
          (x, s) = malloc e (size_bytes (vec_n s)) s;
          (y, s) = malloc e (size_bytes (vec_n s)) s
      in case call_initialize_array e x s of
           Inl f \<Rightarrow> Inl f
         | Inr s \<Rightarrow>
             (case call_initialize_array e y s of
                Inl f \<Rightarrow> Inl f
              | Inr s \<Rightarrow>
                  (let (begin, s) = read_clock e s;
                       (start, s) = read_clock_gettime e s
                   in case call_kernel e x y a s of
                        Inl f \<Rightarrow> Inl f
                      | Inr s \<Rightarrow> Inr (report e x y begin start s))))"

text \<open>The body of \<open>while (n != -1)\<close>, lines 127 to 163.\<close>

definition loop_body :: "'d env \<Rightarrow> 'd state \<Rightarrow> fault + 'd state" where
  "loop_body e s =
     (let s = read_parameters s
      in if vec_n s \<noteq> - 1 then trial e s else Inr s)"

text \<open>
  The loop may run forever (at the end of the input \<open>n\<close> keeps its last value), so it is
  a partial function: \<open>None\<close> is a run that does not return.
\<close>

partial_function (option) main_loop :: "'d env \<Rightarrow> 'd state \<Rightarrow> (fault + 'd state) option" where
  "main_loop e s =
     (if vec_n s \<noteq> - 1
      then (case loop_body e s of
              Inl f \<Rightarrow> Some (Inl f)
            | Inr s' \<Rightarrow> main_loop e s')
      else Some (Inr s))"

text \<open>After the loop: the farewell line and \<open>return 0\<close>.\<close>

definition finish_main :: "(fault + 'd state) option \<Rightarrow> (fault + int \<times> 'd state) option" where
  "finish_main r =
     (case r of
        None \<Rightarrow> None
      | Some (Inl f) \<Rightarrow> Some (Inl f)
      | Some (Inr s) \<Rightarrow> Some (Inr (0, printf goodbye s)))"

definition initial_state :: "'d env \<Rightarrow> int list \<Rightarrow> 'd state" where
  "initial_state e input =
     \<lparr> stdin = input, seed = time e, mem = Map.empty, brk = 1, blocks = Map.empty, ticks = 0,
       dyn_or_stc = None, thread_count = 1, vec_n = 1, calls = [Srand (time e)] \<rparr>"

definition main :: "'d env \<Rightarrow> int list \<Rightarrow> (fault + int \<times> 'd state) option" where
  "main e input = finish_main (main_loop e (initial_state e input))"

section \<open>Sample inputs\<close>

text \<open>
  Two runtimes. Both form the requested team from 1 on. \<open>round_robin\<close> does below 1
  what GNU's runtime does: its default team (four threads here) for a request of 0,
  and the end of the program for a negative one; it hands chunk \<open>c\<close> to worker
  \<open>c mod team\<close> and lets the threads run one after the other. \<open>zigzag\<close> is made for
  four iterations on two threads: the second thread starts first, then the two
  alternate.
\<close>

definition round_robin :: omp where
  "round_robin =
     \<lparr> team = (\<lambda>k. if k < 0 then None else if k = 0 then Some 4 else Some (nat k)),
       pull = (\<lambda>chunks team. map (\<lambda>c. c mod team) [0..<chunks]),
       interleave = concat \<rparr>"

definition zigzag :: omp where
  "zigzag =
     \<lparr> team = (\<lambda>k. if k < 1 then None else Some (nat k)),
       pull = (\<lambda>chunks team. replicate chunks 0),
       interleave = (\<lambda>ws. [2, 0, 3, 1]) \<rparr>"

text \<open>A heap with \<open>x = (1, 2, 3, 4)\<close> at address 10 and \<open>y = (10, 20, 30, 40)\<close> at 20.\<close>

definition heap4 :: "real heap" where
  "heap4 = [10 \<mapsto> 1, 11 \<mapsto> 2, 12 \<mapsto> 3, 13 \<mapsto> 4, 20 \<mapsto> 10, 21 \<mapsto> 20, 22 \<mapsto> 30, 23 \<mapsto> 40]"

text \<open>A heap with 250 ones at address 1000 and 250 twos at address 2000.\<close>

definition heap250 :: "real heap" where
  "heap250 =
     (\<lambda>p. if 1000 \<le> p \<and> p < 1250 then Some 1
          else if 2000 \<le> p \<and> p < 2250 then Some 2 else None)"

text \<open>
  An environment: binary64 arithmetic, the \<open>round_robin\<close> runtime, a generator that
  counts up from its seed, clocks that advance by a fixed amount at each reading, and
  a heap of 1000 doubles.
\<close>

definition env0 :: "real env" where
  "env0 =
     \<lparr> dbl = binary64, openmp = round_robin, rand = (\<lambda>s. (int s, Suc s)), time = 7,
       clock = (\<lambda>k. 1000 * int k),
       clock_gettime = (\<lambda>k. \<lparr>tv_sec = 5 + int k, tv_nsec = 250000\<rparr>),
       clocks_per_sec = 1000000, heap_cells = 1000, fresh = 0 \<rparr>"

section \<open>Executions are permutations of the index range\<close>

lemma mset_concat_update:
  assumes "k < length ws" "ws ! k \<noteq> []"
  shows "mset (concat ws) = add_mset (hd (ws ! k)) (mset (concat (ws[k := tl (ws ! k)])))"
proof -
  have ws: "ws = take k ws @ ws ! k # drop (Suc k) ws"
    using assms(1) by (rule id_take_nth_drop)
  have upd: "ws[k := tl (ws ! k)] = take k ws @ tl (ws ! k) # drop (Suc k) ws"
    using assms(1) by (rule upd_conv_take_nth_drop)
  have "mset (ws ! k) = add_mset (hd (ws ! k)) (mset (tl (ws ! k)))"
    using assms(2) by (cases "ws ! k") simp_all
  then have "mset (concat (take k ws @ ws ! k # drop (Suc k) ws)) =
      add_mset (hd (ws ! k)) (mset (concat (take k ws @ tl (ws ! k) # drop (Suc k) ws)))"
    by simp
  then show ?thesis using ws upd by simp
qed

lemma interleaves_mset: "interleaves ws ord \<Longrightarrow> mset ord = mset (concat ws)"
proof (induction ord arbitrary: ws)
  case Nil
  then have "\<forall>w \<in> set ws. w = []" by (simp add: list_all_iff)
  then have "concat ws = []" by simp
  then show ?case by simp
next
  case (Cons i ord)
  then obtain k where k: "k < length ws" "ws ! k \<noteq> []" "hd (ws ! k) = i"
      "interleaves (ws[k := tl (ws ! k)]) ord"
    by (auto simp: list_ex_iff)
  from Cons.IH [OF k(4)] mset_concat_update [OF k(1,2)] k(3) show ?case by simp
qed

lemma concat_ranges:
  assumes "\<And>k. k < t \<Longrightarrow> f k \<le> f (Suc k)"
  shows "concat (map (\<lambda>k. [f k..<f (Suc k)]) [0..<t]) = [f 0..<f t]"
  using assms
proof (induction t)
  case 0
  then show ?case by simp
next
  case (Suc t)
  have le: "f 0 \<le> f t" using Suc.prems
  proof (induction t)
    case 0 then show ?case by simp
  next
    case (Suc t) 
    have "f 0 \<le> f t" using Suc by simp
    moreover have "f t \<le> f (Suc t)" using Suc.prems by simp
    ultimately show ?case by simp
  qed
  have "f t \<le> f (Suc t)" using Suc.prems by simp
  then have "[f 0..<f t] @ [f t..<f (Suc t)] = [f 0..<f (Suc t)]"
    using le by (metis le_Suc_ex upt_add_eq_append)
  then show ?case using Suc by simp
qed

lemma block_start_mono: "block_start n t k \<le> block_start n t (Suc k)"
  by (simp add: block_start_def min_def)

lemma concat_static_blocks: "0 < t \<Longrightarrow> concat (static_blocks n t) = [0..<n]"
proof -
  assume t: "0 < t"
  have "concat (static_blocks n t) = [block_start n t 0..<block_start n t t]"
    unfolding static_blocks_def by (rule concat_ranges) (rule block_start_mono)
  moreover have "block_start n t 0 = 0" by (simp add: block_start_def)
  moreover have "block_start n t t = n"
  proof -
    have "n mod t < t" using t by simp
    then have "min t (n mod t) = n mod t" by simp
    then show ?thesis by (simp add: block_start_def)
  qed
  ultimately show ?thesis by simp
qed

lemma concat_dynamic_chunks: "concat (dynamic_chunks n) = [0..<n]"
proof -
  let ?m = "(n + chunk_size - 1) div chunk_size"
  let ?f = "\<lambda>c. min n (c * chunk_size)"
  have eq: "map (\<lambda>c. [c * chunk_size..<min n (Suc c * chunk_size)]) [0..<?m] =
        map (\<lambda>c. [?f c..<?f (Suc c)]) [0..<?m]"
    by (rule map_cong) (auto simp: chunk_size_def min_def)
  have "concat (map (\<lambda>c. [?f c..<?f (Suc c)]) [0..<?m]) = [?f 0..<?f ?m]"
    by (rule concat_ranges) (simp add: min_def)
  moreover have "?f ?m = n" by (simp add: chunk_size_def min_def) 
  ultimately show ?thesis unfolding dynamic_chunks_def eq by simp
qed

lemma sum_list_single:
  "(\<Sum>v\<leftarrow>[0..<t]. if v = w then (A :: 'a multiset) else {#}) = (if w < t then A else {#})"
  by (induction t) auto

lemma mset_worker_queues:
  assumes "length asg = length chunks" "\<forall>w \<in> set asg. w < t"
  shows "mset (concat (map (worker_queue chunks asg) [0..<t])) = mset (concat chunks)"
  using assms
proof (induction asg chunks rule: list_induct2)
  case Nil
  then show ?case by (simp add: worker_queue_def)
next
  case (Cons w asg c chunks)
  have step: "worker_queue (c # chunks) (w # asg) v =
      (if v = w then c @ worker_queue chunks asg v else worker_queue chunks asg v)" for v
    by (simp add: worker_queue_def)
  have w: "w < t" using Cons.prems by simp
  have "mset (concat (map (worker_queue (c # chunks) (w # asg)) [0..<t])) =
      (\<Sum>v\<leftarrow>[0..<t]. mset (worker_queue (c # chunks) (w # asg) v))"
    by (simp add: mset_concat comp_def)
  also have "\<dots> = (\<Sum>v\<leftarrow>[0..<t]. (if v = w then mset c else {#}) + mset (worker_queue chunks asg v))"
    by (rule arg_cong [where f = sum_list], rule map_cong) (simp_all add: step)
  also have "\<dots> = (\<Sum>v\<leftarrow>[0..<t]. if v = w then mset c else {#}) +
      (\<Sum>v\<leftarrow>[0..<t]. mset (worker_queue chunks asg v))"
    by (simp add: sum_list_addf)
  also have "(\<Sum>v\<leftarrow>[0..<t]. if v = w then mset c else {#}) = mset c"
    using w by (simp add: sum_list_single)
  also have "(\<Sum>v\<leftarrow>[0..<t]. mset (worker_queue chunks asg v)) =
      mset (concat (map (worker_queue chunks asg) [0..<t]))"
    by (simp add: mset_concat comp_def)
  also have "\<dots> = mset (concat chunks)" using Cons by simp
  finally show ?case by simp
qed

lemma static_okD:
  assumes "static_ok rt n threads"
  obtains t where "team rt threads = Some t" "0 < t"
    "interleaves (static_blocks (nat n) t) (static_order rt n t)"
  using assms by (auto simp: static_ok_def split: option.splits)

lemma dynamic_okD:
  assumes "dynamic_ok rt n threads"
  obtains t where "team rt threads = Some t" "0 < t"
    "length (pull rt (length (dynamic_chunks (nat n))) t) = length (dynamic_chunks (nat n))"
    "\<forall>w \<in> set (pull rt (length (dynamic_chunks (nat n))) t). w < t"
    "interleaves (dynamic_work (nat n) t (pull rt (length (dynamic_chunks (nat n))) t))
       (dynamic_order rt n t)"
  using assms by (auto simp: dynamic_ok_def Let_def list_all_iff split: option.splits)

lemma static_order_mset:
  assumes "0 < t" "interleaves (static_blocks (nat n) t) (static_order rt n t)"
  shows "mset (static_order rt n t) = mset (iterations n)"
proof -
  have "concat (static_blocks (nat n) t) = [0..<nat n]"
    using assms(1) by (rule concat_static_blocks)
  with interleaves_mset [OF assms(2)] show ?thesis
    by (simp add: iterations_def)
qed

lemma dynamic_order_mset:
  assumes len: "length (pull rt (length (dynamic_chunks (nat n))) t) = length (dynamic_chunks (nat n))"
    and team: "\<forall>w \<in> set (pull rt (length (dynamic_chunks (nat n))) t). w < t"
    and il: "interleaves (dynamic_work (nat n) t (pull rt (length (dynamic_chunks (nat n))) t))
       (dynamic_order rt n t)"
  shows "mset (dynamic_order rt n t) = mset (iterations n)"
proof -
  let ?asg = "pull rt (length (dynamic_chunks (nat n))) t"
  have "mset (dynamic_order rt n t) = mset (concat (dynamic_work (nat n) t ?asg))"
    using il by (rule interleaves_mset)
  also have "\<dots> = mset (concat (dynamic_chunks (nat n)))"
    unfolding dynamic_work_def using len team by (rule mset_worker_queues)
  finally show ?thesis by (simp add: concat_dynamic_chunks iterations_def)
qed

lemma parallel_for_daxpy:
  assumes "distinct ord"
    and "\<forall>i \<in> set ord. h (y + i) \<noteq> None \<and> h (x + i) \<noteq> None"
    and "\<forall>i \<in> set ord. \<forall>j \<in> set ord. x + i = y + j \<longrightarrow> i = j"
  shows "parallel_for (daxpy_iter fp x y a) ord h =
     Inr (\<lambda>p. if p \<in> (+) y ` set ord
              then Some (fadd fp (the (h p)) (fmul fp (the (h (x + (p - y)))) a))
              else h p)"
  using assms
proof (induction ord arbitrary: h)
  case Nil
  then show ?case by simp
next
  case (Cons i ord)
  obtain yi xi where yi: "h (y + i) = Some yi" and xi: "h (x + i) = Some xi"
    using Cons.prems(2) by auto
  let ?h1 = "h(y + i \<mapsto> fadd fp yi (fmul fp xi a))"
  have iter: "daxpy_iter fp x y a i h = Inr ?h1"
    by (simp add: daxpy_iter_def yi xi)
  have notin: "i \<notin> set ord" using Cons.prems(1) by simp
  have alloc: "\<forall>j \<in> set ord. ?h1 (y + j) \<noteq> None \<and> ?h1 (x + j) \<noteq> None"
    using Cons.prems(2) by simp
  have sep: "\<forall>j \<in> set ord. \<forall>k \<in> set ord. x + j = y + k \<longrightarrow> j = k"
    using Cons.prems(3) by simp
  have xj: "x + j \<noteq> y + i" if "j \<in> set ord" for j
    using Cons.prems(3) that notin by auto
  have IH: "parallel_for (daxpy_iter fp x y a) ord ?h1 =
     Inr (\<lambda>p. if p \<in> (+) y ` set ord
              then Some (fadd fp (the (?h1 p)) (fmul fp (the (?h1 (x + (p - y)))) a))
              else ?h1 p)"
    using Cons.prems(1) alloc sep by (intro Cons.IH) simp_all
  have "(\<lambda>p. if p \<in> (+) y ` set ord
              then Some (fadd fp (the (?h1 p)) (fmul fp (the (?h1 (x + (p - y)))) a))
              else ?h1 p) =
        (\<lambda>p. if p \<in> (+) y ` set (i # ord)
              then Some (fadd fp (the (h p)) (fmul fp (the (h (x + (p - y)))) a))
              else h p)"
  proof
    fix p
    show "(if p \<in> (+) y ` set ord
              then Some (fadd fp (the (?h1 p)) (fmul fp (the (?h1 (x + (p - y)))) a))
              else ?h1 p) =
        (if p \<in> (+) y ` set (i # ord)
              then Some (fadd fp (the (h p)) (fmul fp (the (h (x + (p - y)))) a))
              else h p)"
    proof (cases "p \<in> (+) y ` set ord")
      case True
      then obtain j where j: "j \<in> set ord" "p = y + j" by auto
      then have "j \<noteq> i" using notin by auto
      then show ?thesis using j xj [OF j(1)] by simp
    next
      case False
      then show ?thesis by (auto simp: yi xi)
    qed
  qed
  then show ?case using iter IH by simp
qed

lemma daxpy_order:
  assumes ord: "mset ord = mset (iterations n)"
    and x: "vector h x n" and y: "vector h y n" and sep: "separate x y n"
  shows "parallel_for (daxpy_iter fp x y a) ord h = Inr (daxpy_result fp x y a n h)"
proof -
  have set: "set ord = {0..<nat n}"
    using mset_eq_setD [OF ord] by (simp add: iterations_def)
  have dist: "distinct ord"
    using mset_eq_imp_distinct_iff [OF ord] by (simp add: iterations_def)
  have alloc: "\<forall>i \<in> set ord. h (y + i) \<noteq> None \<and> h (x + i) \<noteq> None"
    using x y set by (simp add: vector_def iterations_def)
  have disj: "\<forall>i \<in> set ord. \<forall>j \<in> set ord. x + i = y + j \<longrightarrow> i = j"
    using sep set by (auto simp: separate_def)
  have img: "p \<in> (+) y ` set ord \<longleftrightarrow> y \<le> p \<and> p < y + nat n" for p
  proof
    assume "p \<in> (+) y ` set ord"
    then show "y \<le> p \<and> p < y + nat n" using set by auto
  next
    assume "y \<le> p \<and> p < y + nat n"
    then have "p - y \<in> set ord" "p = y + (p - y)" using set by auto
    then show "p \<in> (+) y ` set ord" by blast
  qed
  show ?thesis
    unfolding parallel_for_daxpy [OF dist alloc disj] daxpy_result_def
    by (simp add: img)
qed

lemma interleaves_concat: "interleaves ws (concat ws)"
proof (induction "length (concat ws)" arbitrary: ws)
  case 0
  then have c: "concat ws = []" by simp
  then have "\<forall>w \<in> set ws. w = []" by simp
  then show ?case unfolding c by (simp add: list_all_iff)
next
  case (Suc m)
  have "concat ws \<noteq> []"
  proof
    assume "concat ws = []"
    then have "length (concat ws) = 0" by (simp only: list.size)
    with Suc.hyps(2) show False by simp
  qed
  then have "\<exists>w \<in> set ws. w \<noteq> []" by simp
  then have ex: "\<exists>j. j < length ws \<and> ws ! j \<noteq> []" by (auto simp: in_set_conv_nth)
  define k where "k = (LEAST j. j < length ws \<and> ws ! j \<noteq> [])"
  have k: "k < length ws" and wk: "ws ! k \<noteq> []"
    using LeastI_ex [OF ex] by (simp_all add: k_def)
  have least: "ws ! j = []" if "j < k" for j
    using not_less_Least [of j "\<lambda>j. j < length ws \<and> ws ! j \<noteq> []"] that k
    by (auto simp: k_def)
  have "\<forall>w \<in> set (take k ws). w = []"
    using k by (auto simp: in_set_conv_nth least)
  then have front: "concat (take k ws) = []" by simp
  have "concat ws = concat (take k ws @ ws ! k # drop (Suc k) ws)"
    using id_take_nth_drop [OF k] by simp
  then have c1: "concat ws = ws ! k @ concat (drop (Suc k) ws)" using front by simp
  have "concat (ws[k := tl (ws ! k)]) = concat (take k ws @ tl (ws ! k) # drop (Suc k) ws)"
    using upd_conv_take_nth_drop [OF k] by simp
  then have c2: "concat (ws[k := tl (ws ! k)]) = tl (ws ! k) @ concat (drop (Suc k) ws)"
    using front by simp
  have split: "concat ws = hd (ws ! k) # concat (ws[k := tl (ws ! k)])"
    using c1 c2 wk by (cases "ws ! k") simp_all
  then have "m = length (concat (ws[k := tl (ws ! k)]))" using Suc.hyps(2) by simp
  then have "interleaves (ws[k := tl (ws ! k)]) (concat (ws[k := tl (ws ! k)]))"
    by (rule Suc.hyps(1))
  then have "interleaves ws (hd (ws ! k) # concat (ws[k := tl (ws ! k)]))"
    using k wk by (auto simp: list_ex_iff)
  then show ?case using split by simp
qed

lemma round_robin_team:
  "team round_robin k = (if k < 0 then None else if k = 0 then Some 4 else Some (nat k))"
  by (simp add: round_robin_def)

lemma round_robin_static: "0 \<le> threads \<Longrightarrow> static_ok round_robin n threads"
  by (simp add: static_ok_def static_order_def round_robin_def interleaves_concat)

lemma round_robin_dynamic: "0 \<le> threads \<Longrightarrow> dynamic_ok round_robin n threads"
  by (simp add: dynamic_ok_def dynamic_order_def round_robin_def interleaves_concat
      list_all_iff)

lemma static_daxpy:
  assumes "vector h x n" "vector h y n" "separate x y n" "static_ok rt n threads"
  shows "calculate_daxpy fp rt x y a n threads h = Inr (daxpy_result fp x y a n h)"
proof -
  from assms(4) obtain t where t: "team rt threads = Some t" "0 < t"
    "interleaves (static_blocks (nat n) t) (static_order rt n t)"
    by (rule static_okD)
  have "parallel_for (daxpy_iter fp x y a) (static_order rt n t) h =
      Inr (daxpy_result fp x y a n h)"
    using static_order_mset [OF t(2,3)] assms(1-3) by (rule daxpy_order)
  then show ?thesis by (simp add: calculate_daxpy_def t(1))
qed

lemma dynamic_daxpy:
  assumes "vector h x n" "vector h y n" "separate x y n" "dynamic_ok rt n threads"
  shows "calculate_daxpy_dynamic fp rt x y a n threads h = Inr (daxpy_result fp x y a n h)"
proof -
  from assms(4) obtain t where t: "team rt threads = Some t" "0 < t"
    "length (pull rt (length (dynamic_chunks (nat n))) t) = length (dynamic_chunks (nat n))"
    "\<forall>w \<in> set (pull rt (length (dynamic_chunks (nat n))) t). w < t"
    "interleaves (dynamic_work (nat n) t (pull rt (length (dynamic_chunks (nat n))) t))
       (dynamic_order rt n t)"
    by (rule dynamic_okD)
  have "parallel_for (daxpy_iter fp x y a) (dynamic_order rt n t) h =
      Inr (daxpy_result fp x y a n h)"
    using dynamic_order_mset [OF t(3-5)] assms(1-3) by (rule daxpy_order)
  then show ?thesis by (simp add: calculate_daxpy_dynamic_def t(1))
qed

lemma seq_daxpy:
  assumes "vector h x n" "vector h y n" "separate x y n"
  shows "daxpy_seq fp x y a n h = Inr (daxpy_result fp x y a n h)"
  unfolding daxpy_seq_def
  using refl assms by (rule daxpy_order)

lemma daxpy_result_y:
  "i < nat n \<Longrightarrow> daxpy_result fp x y a n h (y + i) =
     Some (fadd fp (the (h (y + i))) (fmul fp (the (h (x + i))) a))"
  by (simp add: daxpy_result_def)

lemma daxpy_result_frame:
  "p < y \<or> y + nat n \<le> p \<Longrightarrow> daxpy_result fp x y a n h p = h p"
  by (auto simp: daxpy_result_def)

lemma daxpy_result_dom:
  "vector h y n \<Longrightarrow> dom (daxpy_result fp x y a n h) = dom h"
proof -
  assume v: "vector h y n"
  have "h p \<noteq> None" if "y \<le> p" "p < y + nat n" for p
  proof -
    have "p - y \<in> set (iterations n)" using that by (simp add: iterations_def)
    then have "h (y + (p - y)) \<noteq> None" using v by (simp add: vector_def)
    then show ?thesis using that by simp
  qed
  then show ?thesis by (auto simp: daxpy_result_def dom_def)
qed

lemma no_iterations: "n \<le> 0 \<Longrightarrow> iterations n = []"
  by (simp add: iterations_def)

lemma static_order_empty:
  assumes "n \<le> 0" "0 < t" "interleaves (static_blocks (nat n) t) (static_order rt n t)"
  shows "static_order rt n t = []"
  using static_order_mset [OF assms(2,3)] no_iterations [OF assms(1)] by simp

lemma dynamic_order_empty:
  assumes "n \<le> 0"
    and "length (pull rt (length (dynamic_chunks (nat n))) t) = length (dynamic_chunks (nat n))"
    and "\<forall>w \<in> set (pull rt (length (dynamic_chunks (nat n))) t). w < t"
    and "interleaves (dynamic_work (nat n) t (pull rt (length (dynamic_chunks (nat n))) t))
       (dynamic_order rt n t)"
  shows "dynamic_order rt n t = []"
  using dynamic_order_mset [OF assms(2-4)] no_iterations [OF assms(1)] by simp

lemma chunk_bounds:
  assumes "c \<in> set (dynamic_chunks n)"
  shows "c \<noteq> [] \<and> length c \<le> 100"
proof -
  from assms obtain k where k: "k < (n + chunk_size - 1) div chunk_size"
    and c: "c = [k * chunk_size..<min n (Suc k * chunk_size)]"
    by (auto simp: dynamic_chunks_def)
  from k have "k * 100 < n" by (simp add: chunk_size_def)
  then show ?thesis using c by (auto simp: chunk_size_def min_def)
qed

section \<open>The calls of a trial\<close>

lemma call_simps:
  "calls (call ev s) = calls s @ [ev]" "vec_n (call ev s) = vec_n s"
  "thread_count (call ev s) = thread_count s" "dyn_or_stc (call ev s) = dyn_or_stc s"
  "ticks (call ev s) = ticks s" "stdin (call ev s) = stdin s" "seed (call ev s) = seed s"
  "mem (call ev s) = mem s" "brk (call ev s) = brk s" "blocks (call ev s) = blocks s"
  by (simp_all add: call_def)

lemma malloc_simps:
  "calls (snd (malloc e b s)) = calls s @ [Malloc b (fst (malloc e b s))]"
  "vec_n (snd (malloc e b s)) = vec_n s"
  "thread_count (snd (malloc e b s)) = thread_count s"
  "dyn_or_stc (snd (malloc e b s)) = dyn_or_stc s"
  "ticks (snd (malloc e b s)) = ticks s"
  "seed (snd (malloc e b s)) = seed s"
  "stdin (snd (malloc e b s)) = stdin s"
  by (simp_all add: malloc_def Let_def call_simps)

lemma free_simps:
  "calls (free p s) = calls s @ [Free p]" "vec_n (free p s) = vec_n s"
  "thread_count (free p s) = thread_count s" "dyn_or_stc (free p s) = dyn_or_stc s"
  "ticks (free p s) = ticks s" "seed (free p s) = seed s" "stdin (free p s) = stdin s"
  by (simp_all add: free_def call_simps split: option.splits)

lemma read_clock_simps:
  "fst (read_clock e s) = clock e (ticks s)"
  "calls (snd (read_clock e s)) = calls s @ [Clock]"
  "ticks (snd (read_clock e s)) = Suc (ticks s)"
  "vec_n (snd (read_clock e s)) = vec_n s"
  "thread_count (snd (read_clock e s)) = thread_count s"
  "dyn_or_stc (snd (read_clock e s)) = dyn_or_stc s"
  "mem (snd (read_clock e s)) = mem s"
  "stdin (snd (read_clock e s)) = stdin s"
  by (simp_all add: read_clock_def call_simps)

lemma read_clock_gettime_simps:
  "fst (read_clock_gettime e s) = clock_gettime e (ticks s)"
  "calls (snd (read_clock_gettime e s)) = calls s @ [Clock_gettime]"
  "ticks (snd (read_clock_gettime e s)) = Suc (ticks s)"
  "vec_n (snd (read_clock_gettime e s)) = vec_n s"
  "thread_count (snd (read_clock_gettime e s)) = thread_count s"
  "dyn_or_stc (snd (read_clock_gettime e s)) = dyn_or_stc s"
  "mem (snd (read_clock_gettime e s)) = mem s"
  "stdin (snd (read_clock_gettime e s)) = stdin s"
  by (simp_all add: read_clock_gettime_def call_simps)

lemma call_initialize_array_Inr:
  assumes "call_initialize_array e arr s = Inr s'"
  shows "calls s' = calls s @ [Initialize_array arr (vec_n s) (thread_count s)] \<and>
     vec_n s' = vec_n s \<and> thread_count s' = thread_count s \<and>
     dyn_or_stc s' = dyn_or_stc s \<and> ticks s' = ticks s \<and> stdin s' = stdin s"
proof (cases "initialize_array (dbl e) (openmp e) (rand e) arr (vec_n s) (thread_count s)
             (mem s, seed s)")
  case (Inl f)
  then have "call_initialize_array e arr s = Inl f"
    by (simp add: call_initialize_array_def)
  with assms show ?thesis by simp
next
  case (Inr p)
  obtain h sd where p: "p = (h, sd)" by (cases p)
  have "call_initialize_array e arr s =
      Inr (call (Initialize_array arr (vec_n s) (thread_count s)) (s\<lparr>mem := h, seed := sd\<rparr>))"
    by (simp add: call_initialize_array_def Inr p)
  with assms
  have s': "s' = call (Initialize_array arr (vec_n s) (thread_count s)) (s\<lparr>mem := h, seed := sd\<rparr>)"
    by simp
  show ?thesis unfolding s' by (simp add: call_simps)
qed

lemma call_kernel_Inr:
  assumes "call_kernel e x y a s = Inr s'"
  shows "(\<exists>m. dyn_or_stc s = Some m \<and>
           calls s' = calls s @
             [if m = 0 then Calculate_daxpy x y a (vec_n s) (thread_count s)
              else Calculate_daxpy_dynamic x y a (vec_n s) (thread_count s)]) \<and>
     vec_n s' = vec_n s \<and> thread_count s' = thread_count s \<and>
     dyn_or_stc s' = dyn_or_stc s \<and> ticks s' = ticks s \<and> stdin s' = stdin s"
proof (cases "dyn_or_stc s")
  case None
  then have "call_kernel e x y a s = Inl Uninitialised" by (simp add: call_kernel_def)
  with assms show ?thesis by simp
next
  case (Some m)
  show ?thesis
  proof (cases "m = 0")
    case True
    show ?thesis
    proof (cases "calculate_daxpy (dbl e) (openmp e) x y a (vec_n s) (thread_count s) (mem s)")
      case (Inl f)
      then have "call_kernel e x y a s = Inl f" by (simp add: call_kernel_def Some True)
      with assms show ?thesis by simp
    next
      case (Inr h)
      then have "call_kernel e x y a s =
          Inr (call (Calculate_daxpy x y a (vec_n s) (thread_count s)) (s\<lparr>mem := h\<rparr>))"
        by (simp add: call_kernel_def Some True)
      with assms
      have s': "s' = call (Calculate_daxpy x y a (vec_n s) (thread_count s)) (s\<lparr>mem := h\<rparr>)"
        by simp
      show ?thesis unfolding s' by (simp add: call_simps Some True)
    qed
  next
    case False
    show ?thesis
    proof (cases "calculate_daxpy_dynamic (dbl e) (openmp e) x y a (vec_n s) (thread_count s) (mem s)")
      case (Inl f)
      then have "call_kernel e x y a s = Inl f" by (simp add: call_kernel_def Some False)
      with assms show ?thesis by simp
    next
      case (Inr h)
      then have "call_kernel e x y a s =
          Inr (call (Calculate_daxpy_dynamic x y a (vec_n s) (thread_count s)) (s\<lparr>mem := h\<rparr>))"
        by (simp add: call_kernel_def Some False)
      with assms
      have s': "s' = call (Calculate_daxpy_dynamic x y a (vec_n s) (thread_count s)) (s\<lparr>mem := h\<rparr>)"
        by simp
      show ?thesis unfolding s' by (simp add: call_simps Some False)
    qed
  qed
qed

lemma report_eq:
  "report e x y begin start s =
     free y (free x
       (call (Print_daxpy y (vec_n s)
          (fdiv (dbl e) (of_long (dbl e) (clock e (ticks s) - begin)) (of_long (dbl e) (clocks_per_sec e)))
          (fsub (dbl e) (ts_to_ms (dbl e) (clock_gettime e (Suc (ticks s)))) (ts_to_ms (dbl e) start)))
       (call (Ts_to_ms (clock_gettime e (Suc (ticks s))))
       (call (Ts_to_ms start)
          (snd (read_clock_gettime e (snd (read_clock e s))))))))"
  by (simp add: report_def Let_def split_def call_simps read_clock_simps read_clock_gettime_simps)

lemma report_calls:
  "calls (report e x y begin start s) = calls s @
     [Clock, Clock_gettime, Ts_to_ms start, Ts_to_ms (clock_gettime e (Suc (ticks s))),
      Print_daxpy y (vec_n s)
        (fdiv (dbl e) (of_long (dbl e) (clock e (ticks s) - begin)) (of_long (dbl e) (clocks_per_sec e)))
        (fsub (dbl e) (ts_to_ms (dbl e) (clock_gettime e (Suc (ticks s)))) (ts_to_ms (dbl e) start)),
      Free x, Free y]"
  unfolding report_eq
  by (simp add: call_simps free_simps read_clock_simps read_clock_gettime_simps)

lemma report_simps:
  "vec_n (report e x y begin start s) = vec_n s"
  "thread_count (report e x y begin start s) = thread_count s"
  "dyn_or_stc (report e x y begin start s) = dyn_or_stc s"
  "stdin (report e x y begin start s) = stdin s"
  unfolding report_eq
  by (simp_all add: call_simps free_simps read_clock_simps read_clock_gettime_simps)

lemma trial_Inr:
  assumes "trial e s = Inr s'"
  shows "\<exists>x y a m. dyn_or_stc s = Some m \<and>
     calls s' = calls s @
       [Initialize_scalar, Malloc (size_bytes (vec_n s)) x, Malloc (size_bytes (vec_n s)) y,
        Initialize_array x (vec_n s) (thread_count s),
        Initialize_array y (vec_n s) (thread_count s),
        Clock, Clock_gettime,
        (if m = 0 then Calculate_daxpy x y a (vec_n s) (thread_count s)
         else Calculate_daxpy_dynamic x y a (vec_n s) (thread_count s)),
        Clock, Clock_gettime,
        Ts_to_ms (clock_gettime e (Suc (ticks s))),
        Ts_to_ms (clock_gettime e (Suc (Suc (Suc (ticks s))))),
        Print_daxpy y (vec_n s)
          (fdiv (dbl e) (of_long (dbl e) (clock e (Suc (Suc (ticks s))) - clock e (ticks s)))
             (of_long (dbl e) (clocks_per_sec e)))
          (fsub (dbl e) (ts_to_ms (dbl e) (clock_gettime e (Suc (Suc (Suc (ticks s))))))
             (ts_to_ms (dbl e) (clock_gettime e (Suc (ticks s))))),
        Free x, Free y]"
    and "vec_n s' = vec_n s" and "thread_count s' = thread_count s"
    and "dyn_or_stc s' = dyn_or_stc s" and "stdin s' = stdin s"
proof -
  define a where "a = fst (initialize_scalar (dbl e) (rand e) (seed s))"
  define s1 where "s1 = call Initialize_scalar (s\<lparr>seed := snd (initialize_scalar (dbl e) (rand e) (seed s))\<rparr>)"
  define x where "x = fst (malloc e (size_bytes (vec_n s1)) s1)"
  define s2 where "s2 = snd (malloc e (size_bytes (vec_n s1)) s1)"
  define y where "y = fst (malloc e (size_bytes (vec_n s2)) s2)"
  define s3 where "s3 = snd (malloc e (size_bytes (vec_n s2)) s2)"
  have unfold: "trial e s =
     (case call_initialize_array e x s3 of
        Inl f \<Rightarrow> Inl f
      | Inr s4 \<Rightarrow>
          (case call_initialize_array e y s4 of
             Inl f \<Rightarrow> Inl f
           | Inr s5 \<Rightarrow>
               (case call_kernel e x y a (snd (read_clock_gettime e (snd (read_clock e s5)))) of
                  Inl f \<Rightarrow> Inl f
                | Inr s8 \<Rightarrow>
                    Inr (report e x y (fst (read_clock e s5))
                           (fst (read_clock_gettime e (snd (read_clock e s5)))) s8))))"
    by (simp add: trial_def Let_def split_def a_def s1_def x_def s2_def y_def s3_def
        split: sum.splits)
  from assms obtain s4 s5 s8 where
    s4: "call_initialize_array e x s3 = Inr s4" and
    s5: "call_initialize_array e y s4 = Inr s5" and
    s8: "call_kernel e x y a (snd (read_clock_gettime e (snd (read_clock e s5)))) = Inr s8" and
    s': "s' = report e x y (fst (read_clock e s5))
                 (fst (read_clock_gettime e (snd (read_clock e s5)))) s8"
    unfolding unfold by (auto split: sum.splits)
  have f1: "calls s1 = calls s @ [Initialize_scalar]" "vec_n s1 = vec_n s"
    "thread_count s1 = thread_count s" "dyn_or_stc s1 = dyn_or_stc s" "ticks s1 = ticks s"
    "stdin s1 = stdin s"
    by (simp_all add: s1_def call_simps)
  have f2: "calls s2 = calls s1 @ [Malloc (size_bytes (vec_n s)) x]" "vec_n s2 = vec_n s"
    "thread_count s2 = thread_count s" "dyn_or_stc s2 = dyn_or_stc s" "ticks s2 = ticks s"
    "stdin s2 = stdin s"
    by (simp_all add: s2_def x_def malloc_simps f1)
  have f3: "calls s3 = calls s2 @ [Malloc (size_bytes (vec_n s)) y]" "vec_n s3 = vec_n s"
    "thread_count s3 = thread_count s" "dyn_or_stc s3 = dyn_or_stc s" "ticks s3 = ticks s"
    "stdin s3 = stdin s"
    by (simp_all add: s3_def y_def malloc_simps f2)
  have f4: "calls s4 = calls s3 @ [Initialize_array x (vec_n s) (thread_count s)]"
    "vec_n s4 = vec_n s" "thread_count s4 = thread_count s" "dyn_or_stc s4 = dyn_or_stc s"
    "ticks s4 = ticks s" "stdin s4 = stdin s"
    using call_initialize_array_Inr [OF s4] by (simp_all add: f3)
  have f5: "calls s5 = calls s4 @ [Initialize_array y (vec_n s) (thread_count s)]"
    "vec_n s5 = vec_n s" "thread_count s5 = thread_count s" "dyn_or_stc s5 = dyn_or_stc s"
    "ticks s5 = ticks s" "stdin s5 = stdin s"
    using call_initialize_array_Inr [OF s5] by (simp_all add: f4)
  let ?s7 = "snd (read_clock_gettime e (snd (read_clock e s5)))"
  have f7: "calls ?s7 = calls s5 @ [Clock, Clock_gettime]" "vec_n ?s7 = vec_n s"
    "thread_count ?s7 = thread_count s" "dyn_or_stc ?s7 = dyn_or_stc s"
    "ticks ?s7 = Suc (Suc (ticks s))" "stdin ?s7 = stdin s"
    "fst (read_clock e s5) = clock e (ticks s)"
    "fst (read_clock_gettime e (snd (read_clock e s5))) = clock_gettime e (Suc (ticks s))"
    by (simp_all add: read_clock_simps read_clock_gettime_simps f5)
  from call_kernel_Inr [OF s8] obtain m where m: "dyn_or_stc s = Some m"
    and c8: "calls s8 = calls ?s7 @
             [if m = 0 then Calculate_daxpy x y a (vec_n s) (thread_count s)
              else Calculate_daxpy_dynamic x y a (vec_n s) (thread_count s)]"
    unfolding f7 by blast
  have f8: "vec_n s8 = vec_n s" "thread_count s8 = thread_count s" "dyn_or_stc s8 = dyn_or_stc s"
    "ticks s8 = Suc (Suc (ticks s))" "stdin s8 = stdin s"
    using call_kernel_Inr [OF s8] by (simp_all add: f7)
  have "calls s' = calls s @
       [Initialize_scalar, Malloc (size_bytes (vec_n s)) x, Malloc (size_bytes (vec_n s)) y,
        Initialize_array x (vec_n s) (thread_count s),
        Initialize_array y (vec_n s) (thread_count s),
        Clock, Clock_gettime,
        (if m = 0 then Calculate_daxpy x y a (vec_n s) (thread_count s)
         else Calculate_daxpy_dynamic x y a (vec_n s) (thread_count s)),
        Clock, Clock_gettime,
        Ts_to_ms (clock_gettime e (Suc (ticks s))),
        Ts_to_ms (clock_gettime e (Suc (Suc (Suc (ticks s))))),
        Print_daxpy y (vec_n s)
          (fdiv (dbl e) (of_long (dbl e) (clock e (Suc (Suc (ticks s))) - clock e (ticks s)))
             (of_long (dbl e) (clocks_per_sec e)))
          (fsub (dbl e) (ts_to_ms (dbl e) (clock_gettime e (Suc (Suc (Suc (ticks s))))))
             (ts_to_ms (dbl e) (clock_gettime e (Suc (ticks s))))),
        Free x, Free y]"
    by (simp add: s' report_calls f7 f8 c8 f5 f4 f3 f2 f1)
  with m show "\<exists>x y a m. dyn_or_stc s = Some m \<and>
     calls s' = calls s @
       [Initialize_scalar, Malloc (size_bytes (vec_n s)) x, Malloc (size_bytes (vec_n s)) y,
        Initialize_array x (vec_n s) (thread_count s),
        Initialize_array y (vec_n s) (thread_count s),
        Clock, Clock_gettime,
        (if m = 0 then Calculate_daxpy x y a (vec_n s) (thread_count s)
         else Calculate_daxpy_dynamic x y a (vec_n s) (thread_count s)),
        Clock, Clock_gettime,
        Ts_to_ms (clock_gettime e (Suc (ticks s))),
        Ts_to_ms (clock_gettime e (Suc (Suc (Suc (ticks s))))),
        Print_daxpy y (vec_n s)
          (fdiv (dbl e) (of_long (dbl e) (clock e (Suc (Suc (ticks s))) - clock e (ticks s)))
             (of_long (dbl e) (clocks_per_sec e)))
          (fsub (dbl e) (ts_to_ms (dbl e) (clock_gettime e (Suc (Suc (Suc (ticks s))))))
             (ts_to_ms (dbl e) (clock_gettime e (Suc (ticks s))))),
        Free x, Free y]"
    by blast
  show "vec_n s' = vec_n s" "thread_count s' = thread_count s"
    "dyn_or_stc s' = dyn_or_stc s" "stdin s' = stdin s"
    by (simp_all add: s' report_simps f8)
qed


section \<open>The claims about the kernels\<close>

text \<open>
  C1. For every scalar, every two separate vectors of length n and every thread count
  from 1 on, in runs that conform to OpenMP: the static kernel and the dynamic kernel
  return what the sequential loop returns, and that heap holds y[i] + x[i]*a in y[i] for every i below n. The values
  are those of the element type, bit for bit: no operation of the arithmetic is
  applied in another order or to other arguments.
\<close>

theorem kernels_compute_sequential_result:
  assumes "vector h x n" "vector h y n" "separate x y n"
    and "static_ok rt n threads" "dynamic_ok rt' n threads"
  shows "calculate_daxpy fp rt x y a n threads h = daxpy_seq fp x y a n h \<and>
         calculate_daxpy_dynamic fp rt' x y a n threads h = daxpy_seq fp x y a n h \<and>
         (\<exists>h'. daxpy_seq fp x y a n h = Inr h' \<and>
            (\<forall>i < nat n. h' (y + i) = Some (fadd fp (the (h (y + i))) (fmul fp (the (h (x + i))) a))))"
  using static_daxpy [OF assms(1-4)] dynamic_daxpy [OF assms(1-3,5)] seq_daxpy [OF assms(1-3)]
  by (simp add: daxpy_result_y)

theorem kernels_compute_sequential_result_witness:
  "vector heap4 10 4 \<and> vector heap4 20 4 \<and> separate 10 20 4 \<and> static_ok zigzag 4 2 \<and>
   dynamic_ok round_robin 4 2 \<and>
   calculate_daxpy binary64 zigzag 10 20 2 4 2 heap4 = daxpy_seq binary64 10 20 2 4 heap4 \<and>
   calculate_daxpy_dynamic binary64 round_robin 10 20 2 4 2 heap4 =
     daxpy_seq binary64 10 20 2 4 heap4"
proof -
  have 1: "vector heap4 10 4" by code_simp
  have 2: "vector heap4 20 4" by code_simp
  have 3: "separate 10 20 4" by code_simp
  have 4: "static_ok zigzag 4 2" by code_simp
  have 5: "dynamic_ok round_robin 4 2" by (rule round_robin_dynamic) simp
  show ?thesis
    using kernels_compute_sequential_result [OF 1 2 3 4 5, of binary64 2] 1 2 3 4 5 by simp
qed

text \<open>
  C2. The dynamic kernel works through chunks of at most 100 consecutive indices that
  together are the index range; whichever worker pulls each chunk and however the
  workers interleave, it returns the heap the static kernel returns. For n = 250 there
  are three chunks.
\<close>

theorem dynamic_chunks_agree_with_static:
  assumes "vector h x n" "vector h y n" "separate x y n"
    and "static_ok rt n threads" "dynamic_ok rt' n threads"
  shows "calculate_daxpy_dynamic fp rt' x y a n threads h = calculate_daxpy fp rt x y a n threads h \<and>
         concat (dynamic_chunks (nat n)) = iterations n \<and>
         (\<forall>c \<in> set (dynamic_chunks (nat n)). c \<noteq> [] \<and> length c \<le> 100) \<and>
         (n = 250 \<longrightarrow> length (dynamic_chunks (nat n)) = 3)"
proof -
  have "calculate_daxpy_dynamic fp rt' x y a n threads h = calculate_daxpy fp rt x y a n threads h"
    using static_daxpy [OF assms(1-4)] dynamic_daxpy [OF assms(1-3,5)] by simp
  moreover have "concat (dynamic_chunks (nat n)) = iterations n"
    by (simp add: concat_dynamic_chunks iterations_def)
  moreover have "\<forall>c \<in> set (dynamic_chunks (nat n)). c \<noteq> [] \<and> length c \<le> 100"
    using chunk_bounds by blast
  moreover have "n = 250 \<longrightarrow> length (dynamic_chunks (nat n)) = 3"
    by (simp add: dynamic_chunks_def chunk_size_def)
  ultimately show ?thesis by simp
qed

theorem dynamic_chunks_agree_with_static_witness:
  "vector heap250 1000 250 \<and> vector heap250 2000 250 \<and> separate 1000 2000 250 \<and>
   static_ok round_robin 250 2 \<and> dynamic_ok round_robin 250 2 \<and>
   calculate_daxpy_dynamic binary64 round_robin 1000 2000 3 250 2 heap250 =
     calculate_daxpy binary64 round_robin 1000 2000 3 250 2 heap250 \<and>
   length (dynamic_chunks 250) = 3"
proof -
  have 1: "vector heap250 1000 250" by (simp add: vector_def heap250_def iterations_def)
  have 2: "vector heap250 2000 250" by (simp add: vector_def heap250_def iterations_def)
  have 3: "separate 1000 2000 250" by (simp add: separate_def)
  have 4: "static_ok round_robin 250 2" by (rule round_robin_static) simp
  have 5: "dynamic_ok round_robin 250 2" by (rule round_robin_dynamic) simp
  show ?thesis
    using dynamic_chunks_agree_with_static [OF 1 2 3 4 5, of binary64 3] 1 2 3 4 5 by simp
qed

text \<open>
  C6. Both kernels write to the cells of y and to nothing else: every cell outside
  y[0..n-1] keeps its contents, the cells of x among them, and no cell is allocated or
  released. The scalar is passed by value; the callee has no access to the caller's
  copy.
\<close>

theorem kernels_write_only_y:
  assumes "vector h x n" "vector h y n" "separate x y n"
    and "static_ok rt n threads" "dynamic_ok rt' n threads"
  shows "\<exists>h1 h2. calculate_daxpy fp rt x y a n threads h = Inr h1 \<and>
           calculate_daxpy_dynamic fp rt' x y a n threads h = Inr h2 \<and>
           (\<forall>p. p < y \<or> y + nat n \<le> p \<longrightarrow> h1 p = h p \<and> h2 p = h p) \<and>
           (\<forall>i < nat n. h1 (x + i) = h (x + i) \<and> h2 (x + i) = h (x + i)) \<and>
           dom h1 = dom h \<and> dom h2 = dom h"
proof -
  let ?r = "daxpy_result fp x y a n h"
  have x: "?r (x + i) = h (x + i)" if "i < nat n" for i
    using assms(3) that by (intro daxpy_result_frame) (auto simp: separate_def)
  have "calculate_daxpy fp rt x y a n threads h = Inr ?r"
    using assms(1-4) by (rule static_daxpy)
  moreover have "calculate_daxpy_dynamic fp rt' x y a n threads h = Inr ?r"
    using assms(1-3,5) by (rule dynamic_daxpy)
  moreover have "\<forall>p. p < y \<or> y + nat n \<le> p \<longrightarrow> ?r p = h p"
    by (simp add: daxpy_result_frame)
  moreover have "\<forall>i < nat n. ?r (x + i) = h (x + i)" using x by simp
  moreover have "dom ?r = dom h" using assms(2) by (rule daxpy_result_dom)
  ultimately show ?thesis by simp
qed

theorem kernels_write_only_y_witness:
  "vector heap4 10 4 \<and> vector heap4 20 4 \<and> separate 10 20 4 \<and> static_ok zigzag 4 2 \<and>
   dynamic_ok round_robin 4 2 \<and>
   (\<exists>h1 h2. calculate_daxpy binary64 zigzag 10 20 2 4 2 heap4 = Inr h1 \<and>
      calculate_daxpy_dynamic binary64 round_robin 10 20 2 4 2 heap4 = Inr h2 \<and>
      h1 10 = Some 1 \<and> h1 11 = Some 2 \<and> h1 12 = Some 3 \<and> h1 13 = Some 4 \<and>
      h2 10 = Some 1 \<and> h2 11 = Some 2 \<and> h2 12 = Some 3 \<and> h2 13 = Some 4 \<and>
      dom h1 = dom heap4 \<and> dom h2 = dom heap4)"
proof -
  have 1: "vector heap4 10 4" by code_simp
  have 2: "vector heap4 20 4" by code_simp
  have 3: "separate 10 20 4" by code_simp
  have 4: "static_ok zigzag 4 2" by code_simp
  have 5: "dynamic_ok round_robin 4 2" by (rule round_robin_dynamic) simp
  from kernels_write_only_y [OF 1 2 3 4 5, of binary64 2]
  obtain h1 h2 where r: "calculate_daxpy binary64 zigzag 10 20 2 4 2 heap4 = Inr h1"
      "calculate_daxpy_dynamic binary64 round_robin 10 20 2 4 2 heap4 = Inr h2"
      "\<forall>i < nat 4. h1 (10 + i) = heap4 (10 + i) \<and> h2 (10 + i) = heap4 (10 + i)"
      "dom h1 = dom heap4" "dom h2 = dom heap4"
    by auto
  have "h1 (10 + i) = heap4 (10 + i) \<and> h2 (10 + i) = heap4 (10 + i)" if "i < 4" for i :: nat
    using r(3) that by simp
  from this [of 0] this [of 1] this [of 2] this [of 3]
  have "h1 10 = Some 1 \<and> h1 11 = Some 2 \<and> h1 12 = Some 3 \<and> h1 13 = Some 4 \<and>
      h2 10 = Some 1 \<and> h2 11 = Some 2 \<and> h2 12 = Some 3 \<and> h2 13 = Some 4"
    by (simp add: heap4_def)
  with r(1,2,4,5) 1 2 3 4 5 show ?thesis by simp
qed

text \<open>
  C7. The heap a kernel returns does not depend on the thread count: for any two
  thread counts from 1 on, and however the runtime schedules the two runs, the static
  kernel returns the same heap, and so does the dynamic kernel.
\<close>

theorem thread_count_does_not_matter:
  assumes "vector h x n" "vector h y n" "separate x y n"
    and "static_ok rt n t1" "static_ok rt' n t2" "dynamic_ok rt n t1" "dynamic_ok rt' n t2"
  shows "calculate_daxpy fp rt x y a n t1 h = calculate_daxpy fp rt' x y a n t2 h \<and>
         calculate_daxpy_dynamic fp rt x y a n t1 h = calculate_daxpy_dynamic fp rt' x y a n t2 h"
  using static_daxpy [OF assms(1-4)] static_daxpy [OF assms(1-3,5)]
    dynamic_daxpy [OF assms(1-3,6)] dynamic_daxpy [OF assms(1-3,7)]
  by simp

theorem thread_count_does_not_matter_witness:
  "vector heap250 1000 250 \<and> vector heap250 2000 250 \<and> separate 1000 2000 250 \<and>
   static_ok round_robin 250 1 \<and> static_ok round_robin 250 8 \<and>
   dynamic_ok round_robin 250 1 \<and> dynamic_ok round_robin 250 8 \<and>
   calculate_daxpy binary64 round_robin 1000 2000 3 250 1 heap250 =
     calculate_daxpy binary64 round_robin 1000 2000 3 250 8 heap250 \<and>
   calculate_daxpy_dynamic binary64 round_robin 1000 2000 3 250 1 heap250 =
     calculate_daxpy_dynamic binary64 round_robin 1000 2000 3 250 8 heap250"
proof -
  have 1: "vector heap250 1000 250" by (simp add: vector_def heap250_def iterations_def)
  have 2: "vector heap250 2000 250" by (simp add: vector_def heap250_def iterations_def)
  have 3: "separate 1000 2000 250" by (simp add: separate_def)
  have 4: "static_ok round_robin 250 1" by (rule round_robin_static) simp
  have 5: "static_ok round_robin 250 8" by (rule round_robin_static) simp
  have 6: "dynamic_ok round_robin 250 1" by (rule round_robin_dynamic) simp
  have 7: "dynamic_ok round_robin 250 8" by (rule round_robin_dynamic) simp
  show ?thesis
    using thread_count_does_not_matter [OF 1 2 3 4 5 6 7, of binary64 3] 1 2 3 4 5 6 7
    by simp
qed

text \<open>
  C10 (as amended). For n \<le> 0 and every thread count from 1 on, the two kernels and
  the vector initializer run no iteration: they return, the heap (and, for the
  initializer, the generator) as it was. This holds on every heap, the empty one
  included, where any read or write would be a fault: no cell is accessed.
\<close>

theorem no_iteration_when_n_not_positive:
  assumes "n \<le> 0" "1 \<le> threads" "static_ok rt n threads" "dynamic_ok rt n threads"
  shows "calculate_daxpy fp rt x y a n threads h = Inr h \<and>
         calculate_daxpy_dynamic fp rt x y a n threads h = Inr h \<and>
         initialize_array fp rt rnd arr n threads (h, sd) = Inr (h, sd)"
proof -
  from assms(3) obtain t where t: "team rt threads = Some t" "0 < t"
    "interleaves (static_blocks (nat n) t) (static_order rt n t)"
    by (rule static_okD)
  from assms(4) obtain t' where t': "team rt threads = Some t'"
    "length (pull rt (length (dynamic_chunks (nat n))) t') = length (dynamic_chunks (nat n))"
    "\<forall>w \<in> set (pull rt (length (dynamic_chunks (nat n))) t'). w < t'"
    "interleaves (dynamic_work (nat n) t' (pull rt (length (dynamic_chunks (nat n))) t'))
       (dynamic_order rt n t')"
    by (rule dynamic_okD)
  have s: "static_order rt n t = []" using assms(1) t(2,3) by (rule static_order_empty)
  have d: "dynamic_order rt n t' = []" using assms(1) t'(2-4) by (rule dynamic_order_empty)
  have "calculate_daxpy fp rt x y a n threads h = Inr h"
    by (simp add: calculate_daxpy_def t(1) s)
  moreover have "calculate_daxpy_dynamic fp rt x y a n threads h = Inr h"
    by (simp add: calculate_daxpy_dynamic_def t'(1) d)
  moreover have "initialize_array fp rt rnd arr n threads (h, sd) = Inr (h, sd)"
    by (simp add: initialize_array_def t(1) s)
  ultimately show ?thesis by simp
qed

theorem no_iteration_when_n_not_positive_witness:
  "(- 5 :: int) \<le> 0 \<and> (1 :: int) \<le> 3 \<and>
   static_ok round_robin (- 5) 3 \<and> dynamic_ok round_robin (- 5) 3 \<and>
   calculate_daxpy binary64 round_robin 0 0 2 (- 5) 3 Map.empty = Inr Map.empty \<and>
   calculate_daxpy_dynamic binary64 round_robin 0 0 2 (- 5) 3 Map.empty = Inr Map.empty \<and>
   initialize_array binary64 round_robin (\<lambda>s. (int s, Suc s)) 0 (- 5) 3 (Map.empty, 7) =
     Inr (Map.empty, 7)"
proof -
  have 1: "(- 5 :: int) \<le> 0" by simp
  have 2: "(1 :: int) \<le> 3" by simp
  have 3: "static_ok round_robin (- 5) 3" by (rule round_robin_static) simp
  have 4: "dynamic_ok round_robin (- 5) 3" by (rule round_robin_dynamic) simp
  show ?thesis
    using no_iteration_when_n_not_positive
      [OF 1 2 3 4, of binary64 0 0 2 Map.empty "\<lambda>s. (int s, Suc s)" 0 7] 1 2 3 4
    by simp
qed

text \<open>
  The claim as the spec states it, for every thread count, fails below 1. OpenMP gives
  no meaning to \<open>num_threads(-1)\<close>, and a runtime that ends the program there, as
  GNU's does, ends it before the loop is reached, whatever n is: with n = 0 the call
  of either kernel, and of the initializer, does not return.
\<close>

theorem negative_thread_count_aborts:
  "calculate_daxpy binary64 round_robin 0 0 2 0 (- 1) Map.empty = Inl Aborted \<and>
   calculate_daxpy_dynamic binary64 round_robin 0 0 2 0 (- 1) Map.empty = Inl Aborted \<and>
   initialize_array binary64 round_robin (\<lambda>s. (int s, Suc s)) 0 0 (- 1) (Map.empty, 7) =
     Inl Aborted"
  by (simp add: calculate_daxpy_def calculate_daxpy_dynamic_def initialize_array_def
      round_robin_team)

section \<open>The claims about the trial loop and the timer\<close>

lemma read_parameters_input:
  assumes "stdin s = m # t # k # rest"
  shows "calls (read_parameters s) = calls s @
       [Printf prompt_mode, Scanf (Some m), Printf prompt_threads, Scanf (Some t),
        Printf prompt_size, Scanf (Some k)]"
    and "vec_n (read_parameters s) = k" and "thread_count (read_parameters s) = t"
    and "dyn_or_stc (read_parameters s) = Some m" and "stdin (read_parameters s) = rest"
    and "mem (read_parameters s) = mem s" and "brk (read_parameters s) = brk s"
    and "blocks (read_parameters s) = blocks s" and "seed (read_parameters s) = seed s"
    and "ticks (read_parameters s) = ticks s"
  using assms
  by (simp_all add: read_parameters_def scanf_def printf_def call_def Let_def)

lemma read_parameters_calls:
  "\<exists>v1 v2 v3. calls (read_parameters s) = calls s @
       [Printf prompt_mode, Scanf v1, Printf prompt_threads, Scanf v2,
        Printf prompt_size, Scanf v3]"
proof (cases "stdin s")
  case Nil
  then show ?thesis
    by (simp add: read_parameters_def scanf_def printf_def call_def Let_def)
next
  case (Cons a as)
  note 1 = this
  show ?thesis
  proof (cases as)
    case Nil
    then show ?thesis using 1
      by (simp add: read_parameters_def scanf_def printf_def call_def Let_def)
  next
    case (Cons b bs)
    note 2 = this
    show ?thesis
    proof (cases bs)
      case Nil
      then show ?thesis using 1 2
        by (simp add: read_parameters_def scanf_def printf_def call_def Let_def)
    next
      case (Cons c cs)
      then show ?thesis using 1 2
        by (simp add: read_parameters_def scanf_def printf_def call_def Let_def)
    qed
  qed
qed

lemma read_parameters_ticks: "ticks (read_parameters s) = ticks s"
  by (simp add: read_parameters_def scanf_def printf_def call_def Let_def
      split: list.splits option.splits)


lemma round_robin_order_2_1: "static_order round_robin 2 (Suc 0) = [0, 1]"
proof -
  have "static_order round_robin 2 1 = [0, 1]" by code_simp
  then show ?thesis by simp
qed

lemma round_robin_static_empty: "n \<le> 0 \<Longrightarrow> static_order round_robin n t = []"
  by (simp add: static_order_def round_robin_def static_blocks_def block_start_def)

lemma run_two: "\<exists>s'. loop_body env0 (initial_state env0 [0, 1, 2, 0, 0, - 1]) = Inr s'"
  by (simp add: loop_body_def read_parameters_def scanf_def printf_def call_def
      initial_state_def trial_def Let_def initialize_scalar_def malloc_def size_bytes_def
      env0_def call_initialize_array_def initialize_array_def round_robin_team
      round_robin_order_2_1
      init_iter_def call_kernel_def calculate_daxpy_def daxpy_iter_def read_clock_def
      read_clock_gettime_def)

lemma run_minus_two: "\<exists>s'. loop_body env0 (initial_state env0 [0, 1, - 2, 0, 0, - 1]) = Inr s'"
  by (simp add: loop_body_def read_parameters_def scanf_def printf_def call_def
      initial_state_def trial_def Let_def initialize_scalar_def malloc_def size_bytes_def
      env0_def call_initialize_array_def initialize_array_def round_robin_team
      round_robin_static_empty
      call_kernel_def calculate_daxpy_def read_clock_def
      read_clock_gettime_def)


lemma loop_body_cases:
  assumes "loop_body e s = Inr s'"
  shows "(vec_n (read_parameters s) = - 1 \<and> s' = read_parameters s) \<or>
         (vec_n (read_parameters s) \<noteq> - 1 \<and> trial e (read_parameters s) = Inr s')"
  using assms by (simp add: loop_body_def Let_def split: if_splits)

lemma loop_body_trial:
  assumes "loop_body e s = Inr s'" "vec_n s' \<noteq> - 1"
  shows "trial e (read_parameters s) = Inr s'"
  using loop_body_cases [OF assms(1)] assms(2) by auto

lemma main_loop_step:
  "vec_n s \<noteq> - 1 \<Longrightarrow>
   main_loop e s = (case loop_body e s of Inl f \<Rightarrow> Some (Inl f) | Inr s' \<Rightarrow> main_loop e s')"
  by (subst main_loop.simps) simp

lemma main_loop_exit: "vec_n s = - 1 \<Longrightarrow> main_loop e s = Some (Inr s)"
  by (subst main_loop.simps) simp

lemma round64_7: "round64 7 = 7"
  by code_simp

lemma loop_body_Inr:
  assumes "loop_body e s = Inr s'" "vec_n s' \<noteq> - 1"
  shows "\<exists>v1 v2 v3 x y a.
     calls s' = calls s @
       [Printf prompt_mode, Scanf v1, Printf prompt_threads, Scanf v2, Printf prompt_size,
        Scanf v3,
        Initialize_scalar, Malloc (size_bytes (vec_n s')) x, Malloc (size_bytes (vec_n s')) y,
        Initialize_array x (vec_n s') (thread_count s'),
        Initialize_array y (vec_n s') (thread_count s'),
        Clock, Clock_gettime,
        (if dyn_or_stc s' = Some 0 then Calculate_daxpy x y a (vec_n s') (thread_count s')
         else Calculate_daxpy_dynamic x y a (vec_n s') (thread_count s')),
        Clock, Clock_gettime,
        Ts_to_ms (clock_gettime e (Suc (ticks s))),
        Ts_to_ms (clock_gettime e (Suc (Suc (Suc (ticks s))))),
        Print_daxpy y (vec_n s')
          (fdiv (dbl e) (of_long (dbl e) (clock e (Suc (Suc (ticks s))) - clock e (ticks s)))
             (of_long (dbl e) (clocks_per_sec e)))
          (fsub (dbl e) (ts_to_ms (dbl e) (clock_gettime e (Suc (Suc (Suc (ticks s))))))
             (ts_to_ms (dbl e) (clock_gettime e (Suc (ticks s))))),
        Free x, Free y]"
proof -
  let ?r = "read_parameters s"
  have t: "trial e ?r = Inr s'" using assms by (rule loop_body_trial)
  note f = trial_Inr(2-5) [OF t]
  from read_parameters_calls [of s] obtain v1 v2 v3 where
    r: "calls ?r = calls s @
       [Printf prompt_mode, Scanf v1, Printf prompt_threads, Scanf v2, Printf prompt_size, Scanf v3]"
    by blast
  from trial_Inr(1) [OF t] obtain x y a m where m: "dyn_or_stc ?r = Some m" and
    c: "calls s' = calls ?r @
       [Initialize_scalar, Malloc (size_bytes (vec_n ?r)) x, Malloc (size_bytes (vec_n ?r)) y,
        Initialize_array x (vec_n ?r) (thread_count ?r),
        Initialize_array y (vec_n ?r) (thread_count ?r),
        Clock, Clock_gettime,
        (if m = 0 then Calculate_daxpy x y a (vec_n ?r) (thread_count ?r)
         else Calculate_daxpy_dynamic x y a (vec_n ?r) (thread_count ?r)),
        Clock, Clock_gettime,
        Ts_to_ms (clock_gettime e (Suc (ticks ?r))),
        Ts_to_ms (clock_gettime e (Suc (Suc (Suc (ticks ?r))))),
        Print_daxpy y (vec_n ?r)
          (fdiv (dbl e) (of_long (dbl e) (clock e (Suc (Suc (ticks ?r))) - clock e (ticks ?r)))
             (of_long (dbl e) (clocks_per_sec e)))
          (fsub (dbl e) (ts_to_ms (dbl e) (clock_gettime e (Suc (Suc (Suc (ticks ?r))))))
             (ts_to_ms (dbl e) (clock_gettime e (Suc (ticks ?r))))),
        Free x, Free y]"
    by blast
  have k: "(dyn_or_stc s' = Some 0) = (m = 0)" using m f by simp
  show ?thesis
    unfolding c r k f [symmetric] read_parameters_ticks by (intro exI) simp
qed


lemma first_iteration_minus_two:
  "map_sum id (\<lambda>s. (vec_n s, take 15 (calls s)))
     (loop_body env0 (initial_state env0 [0, 1, - 2, 0, 0, - 1])) =
   Inr (- 2,
     [Srand 7, Printf prompt_mode, Scanf (Some 0), Printf prompt_threads, Scanf (Some 1),
      Printf prompt_size, Scanf (Some (- 2)), Initialize_scalar,
      Malloc 18446744073709551600 0, Malloc 18446744073709551600 0,
      Initialize_array 0 (- 2) 1, Initialize_array 0 (- 2) 1, Clock, Clock_gettime,
      Calculate_daxpy 0 0 7 (- 2) 1])"
  by (simp add: loop_body_def read_parameters_def scanf_def printf_def call_def
      initial_state_def trial_def Let_def initialize_scalar_def malloc_def size_bytes_def
      env0_def call_initialize_array_def initialize_array_def round_robin_team
      round_robin_static_empty
      call_kernel_def calculate_daxpy_def read_clock_def read_clock_gettime_def
      report_calls report_simps binary64_def round64_7)

lemma first_iteration_two:
  "map_sum id (\<lambda>s. (vec_n s, take 15 (calls s)))
     (loop_body env0 (initial_state env0 [0, 1, 2, 0, 0, - 1])) =
   Inr (2,
     [Srand 7, Printf prompt_mode, Scanf (Some 0), Printf prompt_threads, Scanf (Some 1),
      Printf prompt_size, Scanf (Some 2), Initialize_scalar,
      Malloc 16 1, Malloc 16 3,
      Initialize_array 1 2 1, Initialize_array 3 2 1, Clock, Clock_gettime,
      Calculate_daxpy 1 3 7 2 1])"
  by (simp add: loop_body_def read_parameters_def scanf_def printf_def call_def
      initial_state_def trial_def Let_def initialize_scalar_def malloc_def size_bytes_def
      env0_def call_initialize_array_def initialize_array_def round_robin_team
      round_robin_order_2_1
      init_iter_def call_kernel_def calculate_daxpy_def daxpy_iter_def read_clock_def
      read_clock_gettime_def report_calls report_simps binary64_def round64_7)


text \<open>
  C3 (as amended). Whenever an iteration of the loop calls a kernel, the length it
  passes is the value of n after the three prompts, that value is not -1, and the two
  allocations of the iteration were made for that length.
\<close>

theorem kernel_length_is_not_sentinel:
  assumes "loop_body e s = Inr s'"
    and "calls s' = calls s @ new"
    and "Calculate_daxpy x y a k t \<in> set new \<or> Calculate_daxpy_dynamic x y a k t \<in> set new"
  shows "k \<noteq> - 1 \<and> k = vec_n s' \<and>
         Malloc (size_bytes k) x \<in> set new \<and> Malloc (size_bytes k) y \<in> set new"
proof (cases "vec_n s' = - 1")
  case True
  with loop_body_cases [OF assms(1)] have "s' = read_parameters s"
    using trial_Inr(2) by fastforce
  with read_parameters_calls [of s] assms(2) obtain v1 v2 v3 where
    "new = [Printf prompt_mode, Scanf v1, Printf prompt_threads, Scanf v2, Printf prompt_size,
        Scanf v3]"
    by auto
  with assms(3) show ?thesis by auto
next
  case False
  from loop_body_Inr [OF assms(1) False] assms(2) obtain v1 v2 v3 x' y' a' p w where
    new: "new =
       [Printf prompt_mode, Scanf v1, Printf prompt_threads, Scanf v2, Printf prompt_size,
        Scanf v3,
        Initialize_scalar, Malloc (size_bytes (vec_n s')) x', Malloc (size_bytes (vec_n s')) y',
        Initialize_array x' (vec_n s') (thread_count s'),
        Initialize_array y' (vec_n s') (thread_count s'),
        Clock, Clock_gettime,
        (if dyn_or_stc s' = Some 0 then Calculate_daxpy x' y' a' (vec_n s') (thread_count s')
         else Calculate_daxpy_dynamic x' y' a' (vec_n s') (thread_count s')),
        Clock, Clock_gettime,
        Ts_to_ms (clock_gettime e (Suc (ticks s))),
        Ts_to_ms (clock_gettime e (Suc (Suc (Suc (ticks s))))),
        Print_daxpy y' (vec_n s') p w,
        Free x', Free y']"
    by auto
  from assms(3) have "x = x' \<and> y = y' \<and> k = vec_n s'"
    unfolding new by (auto split: if_splits)
  with False show ?thesis unfolding new by simp
qed

theorem kernel_length_is_not_sentinel_witness:
  "\<exists>s' new. loop_body env0 (initial_state env0 [0, 1, 2, 0, 0, - 1]) = Inr s' \<and>
     calls s' = calls (initial_state env0 [0, 1, 2, 0, 0, - 1]) @ new \<and>
     Calculate_daxpy 1 3 7 2 1 \<in> set new \<and>
     (2 :: int) \<noteq> - 1 \<and> 2 = vec_n s' \<and>
     Malloc (size_bytes 2) 1 \<in> set new \<and> Malloc (size_bytes 2) 3 \<in> set new"
proof -
  let ?s = "initial_state env0 [0, 1, 2, 0, 0, - 1]"
  from first_iteration_two obtain s' where s': "loop_body env0 ?s = Inr s'"
    and c: "take 15 (calls s') =
     [Srand 7, Printf prompt_mode, Scanf (Some 0), Printf prompt_threads, Scanf (Some 1),
      Printf prompt_size, Scanf (Some 2), Initialize_scalar,
      Malloc 16 1, Malloc 16 3,
      Initialize_array 1 2 1, Initialize_array 3 2 1, Clock, Clock_gettime,
      Calculate_daxpy 1 3 7 2 1]"
    by (cases "loop_body env0 ?s") auto
  have "calls ?s = [Srand 7]" by (simp add: initial_state_def env0_def)
  moreover from loop_body_Inr [OF s'] s' first_iteration_two
  have "\<exists>new. calls s' = calls ?s @ new" by auto
  ultimately obtain new where new: "calls s' = calls ?s @ new" and
    new': "calls s' = Srand 7 # new" by auto
  have "take 15 (calls s') ! 14 = calls s' ! 14" by simp
  then have "calls s' ! 14 = Calculate_daxpy 1 3 7 2 1" unfolding c by simp
  moreover have "14 < length (calls s')"
    using arg_cong [OF c, of length] by simp
  ultimately have "Calculate_daxpy 1 3 7 2 1 \<in> set (calls s')" by (metis nth_mem)
  then have k: "Calculate_daxpy 1 3 7 2 1 \<in> set new" unfolding new' by simp
  from kernel_length_is_not_sentinel [OF s' new, of 1 3 7 2 1] k s' new show ?thesis
    by blast
qed

text \<open>
  The claim as the spec states it fails: after the prompts are answered with 0, 1 and
  -2, the loop allocates twice (the size computed in \<open>size_t\<close>, both calls returning
  \<open>NULL\<close>) and calls the static kernel with n = -2.
\<close>

theorem negative_length_reaches_kernel:
  "map_sum id (\<lambda>s. (vec_n s, take 15 (calls s)))
     (loop_body env0 (initial_state env0 [0, 1, - 2, 0, 0, - 1])) =
   Inr (- 2,
     [Srand 7, Printf prompt_mode, Scanf (Some 0), Printf prompt_threads, Scanf (Some 1),
      Printf prompt_size, Scanf (Some (- 2)), Initialize_scalar,
      Malloc 18446744073709551600 0, Malloc 18446744073709551600 0,
      Initialize_array 0 (- 2) 1, Initialize_array 0 (- 2) 1, Clock, Clock_gettime,
      Calculate_daxpy 0 0 7 (- 2) 1])"
  by (rule first_iteration_minus_two)


text \<open>
  C4 (as amended). An iteration that runs a trial makes its calls in this order: the
  three prompts, each followed by its read; the scalar source, once; the allocation of
  x, then of y; the vector initializer on x, then on y; the two clock readings that
  start the timer; the kernel chosen by the mode; the two clock readings that stop the
  timer; the two conversions to milliseconds; the report; the release of x, then of y.
  The scalar is drawn before the vectors are allocated and filled.
\<close>

theorem trial_calls_in_order:
  assumes "loop_body e s = Inr s'" and "vec_n s' \<noteq> - 1"
  shows "\<exists>v1 v2 v3 x y a start finish proc.
     calls s' = calls s @
       [Printf prompt_mode, Scanf v1, Printf prompt_threads, Scanf v2, Printf prompt_size,
        Scanf v3,
        Initialize_scalar, Malloc (size_bytes (vec_n s')) x, Malloc (size_bytes (vec_n s')) y,
        Initialize_array x (vec_n s') (thread_count s'),
        Initialize_array y (vec_n s') (thread_count s'),
        Clock, Clock_gettime,
        (if dyn_or_stc s' = Some 0 then Calculate_daxpy x y a (vec_n s') (thread_count s')
         else Calculate_daxpy_dynamic x y a (vec_n s') (thread_count s')),
        Clock, Clock_gettime,
        Ts_to_ms start, Ts_to_ms finish,
        Print_daxpy y (vec_n s') proc
          (fsub (dbl e) (ts_to_ms (dbl e) finish) (ts_to_ms (dbl e) start)),
        Free x, Free y]"
  using loop_body_Inr [OF assms] by blast

theorem trial_calls_in_order_witness:
  "\<exists>s'. loop_body env0 (initial_state env0 [0, 1, 2, 0, 0, - 1]) = Inr s' \<and> vec_n s' \<noteq> - 1 \<and>
    (\<exists>v1 v2 v3 x y a start finish proc.
     calls s' = calls (initial_state env0 [0, 1, 2, 0, 0, - 1]) @
       [Printf prompt_mode, Scanf v1, Printf prompt_threads, Scanf v2, Printf prompt_size,
        Scanf v3,
        Initialize_scalar, Malloc (size_bytes (vec_n s')) x, Malloc (size_bytes (vec_n s')) y,
        Initialize_array x (vec_n s') (thread_count s'),
        Initialize_array y (vec_n s') (thread_count s'),
        Clock, Clock_gettime,
        (if dyn_or_stc s' = Some 0 then Calculate_daxpy x y a (vec_n s') (thread_count s')
         else Calculate_daxpy_dynamic x y a (vec_n s') (thread_count s')),
        Clock, Clock_gettime,
        Ts_to_ms start, Ts_to_ms finish,
        Print_daxpy y (vec_n s') proc
          (fsub (dbl env0) (ts_to_ms (dbl env0) finish) (ts_to_ms (dbl env0) start)),
        Free x, Free y])"
proof -
  let ?s = "initial_state env0 [0, 1, 2, 0, 0, - 1]"
  from first_iteration_two obtain s' where s': "loop_body env0 ?s = Inr s'"
    and n: "vec_n s' = 2"
    by (cases "loop_body env0 ?s") auto
  from n have n': "vec_n s' \<noteq> - 1" by simp
  from trial_calls_in_order [OF s' n'] s' n' show ?thesis by blast
qed

text \<open>
  The order the spec gives fails on the code: in the first iteration on the input
  0, 1, 2 the scalar source is the 8th call, before both allocations (9th and 10th) and
  both calls of the vector initializer (11th and 12th).
\<close>

theorem scalar_drawn_before_vectors:
  "map_sum id (\<lambda>s. take 12 (calls s))
     (loop_body env0 (initial_state env0 [0, 1, 2, 0, 0, - 1])) =
   Inr [Srand 7, Printf prompt_mode, Scanf (Some 0), Printf prompt_threads, Scanf (Some 1),
        Printf prompt_size, Scanf (Some 2), Initialize_scalar, Malloc 16 1, Malloc 16 3,
        Initialize_array 1 2 1, Initialize_array 3 2 1]"
proof (cases "loop_body env0 (initial_state env0 [0, 1, 2, 0, 0, - 1])")
  case (Inl f)
  with first_iteration_two show ?thesis by simp
next
  case (Inr s')
  with first_iteration_two have "take 15 (calls s') =
     [Srand 7, Printf prompt_mode, Scanf (Some 0), Printf prompt_threads, Scanf (Some 1),
      Printf prompt_size, Scanf (Some 2), Initialize_scalar,
      Malloc 16 1, Malloc 16 3,
      Initialize_array 1 2 1, Initialize_array 3 2 1, Clock, Clock_gettime,
      Calculate_daxpy 1 3 7 2 1]"
    by simp
  then have "take 12 (take 15 (calls s')) =
     [Srand 7, Printf prompt_mode, Scanf (Some 0), Printf prompt_threads, Scanf (Some 1),
      Printf prompt_size, Scanf (Some 2), Initialize_scalar,
      Malloc 16 1, Malloc 16 3,
      Initialize_array 1 2 1, Initialize_array 3 2 1]"
    by simp
  then show ?thesis using Inr by simp
qed

text \<open>
  C5. When the third prompt of an iteration reads -1, whatever the first two read, the
  loop ends there: the iteration makes no call but the three prompts and reads, the
  heap and the generator are as they were, the farewell line is printed, and \<open>main\<close>
  returns 0. In particular a run whose first three inputs end in -1 is nothing but
  the seeding, the prompts and the farewell.
\<close>

theorem sentinel_ends_session:
  assumes "stdin s = m # t # - 1 # rest" and "vec_n s \<noteq> - 1"
  shows "(\<exists>s'. finish_main (main_loop e s) = Some (Inr (0, s')) \<and>
           calls s' = calls s @
             [Printf prompt_mode, Scanf (Some m), Printf prompt_threads, Scanf (Some t),
              Printf prompt_size, Scanf (Some (- 1)), Printf goodbye] \<and>
           mem s' = mem s \<and> blocks s' = blocks s \<and> brk s' = brk s \<and> seed s' = seed s \<and>
           ticks s' = ticks s \<and> stdin s' = rest) \<and>
         (\<exists>s'. main e (m # t # - 1 # rest) = Some (Inr (0, s')) \<and>
           calls s' =
             [Srand (time e), Printf prompt_mode, Scanf (Some m), Printf prompt_threads,
              Scanf (Some t), Printf prompt_size, Scanf (Some (- 1)), Printf goodbye])"
proof -
  have stop: "finish_main (main_loop e s) = Some (Inr (0, printf goodbye (read_parameters s)))"
    if "stdin s = m # t # - 1 # rest" "vec_n s \<noteq> - 1" for s :: "'a state"
  proof -
    have n: "vec_n (read_parameters s) = - 1" using that(1) by (rule read_parameters_input)
    then have "loop_body e s = Inr (read_parameters s)" by (simp add: loop_body_def Let_def)
    then have "main_loop e s = main_loop e (read_parameters s)"
      using that(2) by (simp add: main_loop_step)
    also have "\<dots> = Some (Inr (read_parameters s))" using n by (rule main_loop_exit)
    finally show ?thesis by (simp add: finish_main_def)
  qed
  have 1: "\<exists>s'. finish_main (main_loop e s) = Some (Inr (0, s')) \<and>
           calls s' = calls s @
             [Printf prompt_mode, Scanf (Some m), Printf prompt_threads, Scanf (Some t),
              Printf prompt_size, Scanf (Some (- 1)), Printf goodbye] \<and>
           mem s' = mem s \<and> blocks s' = blocks s \<and> brk s' = brk s \<and> seed s' = seed s \<and>
           ticks s' = ticks s \<and> stdin s' = rest"
    unfolding stop [OF assms]
    by (simp add: printf_def call_simps read_parameters_input [OF assms(1)])
  let ?i = "initial_state e (m # t # - 1 # rest)"
  have i: "stdin ?i = m # t # - 1 # rest" "vec_n ?i \<noteq> - 1" "calls ?i = [Srand (time e)]"
    by (simp_all add: initial_state_def)
  have 2: "\<exists>s'. main e (m # t # - 1 # rest) = Some (Inr (0, s')) \<and>
           calls s' =
             [Srand (time e), Printf prompt_mode, Scanf (Some m), Printf prompt_threads,
              Scanf (Some t), Printf prompt_size, Scanf (Some (- 1)), Printf goodbye]"
    unfolding main_def stop [OF i(1,2)]
    by (simp add: printf_def call_simps read_parameters_input [OF i(1)] i(3))
  from 1 2 show ?thesis by blast
qed

theorem sentinel_ends_session_witness:
  "stdin (initial_state env0 [5, 3, - 1, 0, 0, 1]) = 5 # 3 # - 1 # [0, 0, 1] \<and>
   vec_n (initial_state env0 [5, 3, - 1, 0, 0, 1]) \<noteq> - 1 \<and>
   (\<exists>s'. main env0 (5 # 3 # - 1 # [0, 0, 1]) = Some (Inr (0, s')) \<and>
      calls s' =
        [Srand (time env0), Printf prompt_mode, Scanf (Some 5), Printf prompt_threads,
         Scanf (Some 3), Printf prompt_size, Scanf (Some (- 1)), Printf goodbye])"
proof -
  have 1: "stdin (initial_state env0 [5, 3, - 1, 0, 0, 1]) = 5 # 3 # - 1 # [0, 0, 1]"
    by (simp add: initial_state_def)
  have 2: "vec_n (initial_state env0 [5, 3, - 1, 0, 0, 1]) \<noteq> - 1"
    by (simp add: initial_state_def)
  from sentinel_ends_session [OF 1 2, of env0] 1 2 show ?thesis by blast
qed


lemma ts_to_ms_spec: "ts_to_ms fp ts = millis_spec fp (tv_sec ts) (tv_nsec ts)"
  by (simp add: ts_to_ms_def millis_spec_def)

lemma sample_wall_time:
  "wall_time_spec binary64 \<lparr>tv_sec = 6, tv_nsec = 250000\<rparr> \<lparr>tv_sec = 8, tv_nsec = 250000\<rparr> = 2000"
  by code_simp

text \<open>
  C9. The conversion is the one the spec writes: seconds times 1000 plus nanoseconds
  over 1,000,000, in double arithmetic. The wall time a trial reports is the
  conversion of the reading taken after the kernel minus the conversion of the reading
  taken before it, each converted on its own.
\<close>

theorem wall_time_as_specified:
  assumes "trial e s = Inr s'"
  shows "ts_to_ms (dbl e) ts = millis_spec (dbl e) (tv_sec ts) (tv_nsec ts) \<and>
     (\<exists>pre kernel x y proc.
        calls s' = pre @
          [Clock, Clock_gettime, kernel, Clock, Clock_gettime,
           Ts_to_ms (clock_gettime e (Suc (ticks s))),
           Ts_to_ms (clock_gettime e (Suc (Suc (Suc (ticks s))))),
           Print_daxpy y (vec_n s) proc
             (wall_time_spec (dbl e) (clock_gettime e (Suc (ticks s)))
                (clock_gettime e (Suc (Suc (Suc (ticks s)))))),
           Free x, Free y])"
proof -
  from trial_Inr(1) [OF assms] obtain x y a m where m: "dyn_or_stc s = Some m" and
    c: "calls s' = calls s @
       [Initialize_scalar, Malloc (size_bytes (vec_n s)) x, Malloc (size_bytes (vec_n s)) y,
        Initialize_array x (vec_n s) (thread_count s),
        Initialize_array y (vec_n s) (thread_count s),
        Clock, Clock_gettime,
        (if m = 0 then Calculate_daxpy x y a (vec_n s) (thread_count s)
         else Calculate_daxpy_dynamic x y a (vec_n s) (thread_count s)),
        Clock, Clock_gettime,
        Ts_to_ms (clock_gettime e (Suc (ticks s))),
        Ts_to_ms (clock_gettime e (Suc (Suc (Suc (ticks s))))),
        Print_daxpy y (vec_n s)
          (fdiv (dbl e) (of_long (dbl e) (clock e (Suc (Suc (ticks s))) - clock e (ticks s)))
             (of_long (dbl e) (clocks_per_sec e)))
          (fsub (dbl e) (ts_to_ms (dbl e) (clock_gettime e (Suc (Suc (Suc (ticks s))))))
             (ts_to_ms (dbl e) (clock_gettime e (Suc (ticks s))))),
        Free x, Free y]"
    by blast
  have "calls s' =
      (calls s @
       [Initialize_scalar, Malloc (size_bytes (vec_n s)) x, Malloc (size_bytes (vec_n s)) y,
        Initialize_array x (vec_n s) (thread_count s),
        Initialize_array y (vec_n s) (thread_count s)]) @
       [Clock, Clock_gettime,
        (if m = 0 then Calculate_daxpy x y a (vec_n s) (thread_count s)
         else Calculate_daxpy_dynamic x y a (vec_n s) (thread_count s)),
        Clock, Clock_gettime,
        Ts_to_ms (clock_gettime e (Suc (ticks s))),
        Ts_to_ms (clock_gettime e (Suc (Suc (Suc (ticks s))))),
        Print_daxpy y (vec_n s)
          (fdiv (dbl e) (of_long (dbl e) (clock e (Suc (Suc (ticks s))) - clock e (ticks s)))
             (of_long (dbl e) (clocks_per_sec e)))
          (wall_time_spec (dbl e) (clock_gettime e (Suc (ticks s)))
                (clock_gettime e (Suc (Suc (Suc (ticks s)))))),
        Free x, Free y]"
    unfolding c by (simp add: wall_time_spec_def ts_to_ms_spec)
  then show ?thesis using ts_to_ms_spec by blast
qed

theorem wall_time_as_specified_witness:
  "\<exists>s'. trial env0 (read_parameters (initial_state env0 [0, 1, 2, 0, 0, - 1])) = Inr s' \<and>
     (\<exists>pre kernel x y proc.
        calls s' = pre @
          [Clock, Clock_gettime, kernel, Clock, Clock_gettime,
           Ts_to_ms \<lparr>tv_sec = 6, tv_nsec = 250000\<rparr>, Ts_to_ms \<lparr>tv_sec = 8, tv_nsec = 250000\<rparr>,
           Print_daxpy y 2 proc 2000, Free x, Free y])"
proof -
  let ?s = "initial_state env0 [0, 1, 2, 0, 0, - 1]"
  from first_iteration_two obtain s' where s': "loop_body env0 ?s = Inr s'"
    and n: "vec_n s' = 2"
    by (cases "loop_body env0 ?s") auto
  from n have "vec_n s' \<noteq> - 1" by simp
  with s' have t: "trial env0 (read_parameters ?s) = Inr s'" by (rule loop_body_trial)
  have f: "ticks (read_parameters ?s) = 0" "vec_n (read_parameters ?s) = 2"
    "dbl env0 = binary64"
    "clock_gettime env0 (Suc 0) = \<lparr>tv_sec = 6, tv_nsec = 250000\<rparr>"
    "clock_gettime env0 (Suc (Suc (Suc 0))) = \<lparr>tv_sec = 8, tv_nsec = 250000\<rparr>"
    using trial_Inr(2) [OF t] n
    by (simp_all add: read_parameters_ticks initial_state_def env0_def)
  from wall_time_as_specified [OF t, of undefined] t show ?thesis
    unfolding f sample_wall_time by blast
qed



section \<open>Rounding to binary64\<close>

lemma rne_floor: "\<lfloor>x\<rfloor> \<le> rne x \<and> rne x \<le> \<lfloor>x\<rfloor> + 1"
  by (simp add: rne_def Let_def)

lemma rne_of_int: "rne (of_int n) = n"
  by (simp add: rne_def Let_def)

lemma rne_mono:
  assumes "x \<le> y"
  shows "rne x \<le> rne y"
proof (cases "\<lfloor>x\<rfloor> = \<lfloor>y\<rfloor>")
  case True
  have "x - of_int \<lfloor>y\<rfloor> \<le> y - of_int \<lfloor>y\<rfloor>" using assms by simp
  then show ?thesis using True by (auto simp: rne_def Let_def)
next
  case False
  have "\<lfloor>x\<rfloor> \<le> \<lfloor>y\<rfloor>" using assms by (rule floor_mono)
  with False have "\<lfloor>x\<rfloor> + 1 \<le> \<lfloor>y\<rfloor>" by simp
  with rne_floor [of x] rne_floor [of y] show ?thesis by linarith
qed

lemma rne_le_int: "x \<le> of_int n \<Longrightarrow> rne x \<le> n"
  using rne_mono [of x "of_int n"] by (simp add: rne_of_int)

lemma rne_ge_int: "of_int n \<le> x \<Longrightarrow> n \<le> rne x"
  using rne_mono [of "of_int n" x] by (simp add: rne_of_int)

lemma rne_minus: "rne (- x) = - rne x"
proof (cases "x = of_int \<lfloor>x\<rfloor>")
  case True
  then obtain n where "x = of_int n" ..
  then have "- x = of_int (- n)" by simp
  then show ?thesis using \<open>x = of_int n\<close> by (metis rne_of_int)
next
  case False
  then have lt: "of_int \<lfloor>x\<rfloor> < x" using of_int_floor_le [of x] by linarith
  have "\<lfloor>- x\<rfloor> = - \<lfloor>x\<rfloor> - 1"
  proof (rule floor_unique)
    show "of_int (- \<lfloor>x\<rfloor> - 1) \<le> - x" using floor_correct [of x] by simp linarith
    show "- x < of_int (- \<lfloor>x\<rfloor> - 1) + 1" using lt by simp
  qed
  then show ?thesis by (auto simp: rne_def Let_def)
qed

lemma ilog2_bounds:
  assumes "r \<noteq> 0"
  shows "2 powi (ilog2 r) \<le> \<bar>r\<bar> \<and> \<bar>r\<bar> < 2 powi (ilog2 r + 1)"
proof (cases "1 \<le> \<bar>r\<bar>")
  case True
  let ?n = "\<lfloor>\<bar>r\<bar>\<rfloor>"
  have n: "0 < ?n" using True by simp
  have b1: "1 \<le> bitlen ?n" using n by (auto simp: bitlen_alt_def)
  from bitlen_bounds [OF n] have lo: "2 ^ nat (bitlen ?n - 1) \<le> ?n" and hi: "?n < 2 ^ nat (bitlen ?n)"
    by simp_all
  have "real_of_int (2 ^ nat (bitlen ?n - 1)) \<le> real_of_int ?n" using lo by (simp only: of_int_le_iff)
  also have "\<dots> \<le> \<bar>r\<bar>" by simp
  finally have 1: "2 powi (bitlen ?n - 1) \<le> \<bar>r\<bar>" using b1 by (simp add: power_int_def)
  have "?n + 1 \<le> 2 ^ nat (bitlen ?n)" using hi by simp
  then have "real_of_int (?n + 1) \<le> real_of_int (2 ^ nat (bitlen ?n))" by (simp only: of_int_le_iff)
  then have "real_of_int ?n + 1 \<le> 2 ^ nat (bitlen ?n)" by simp
  moreover have "\<bar>r\<bar> < real_of_int ?n + 1" by linarith
  ultimately have "\<bar>r\<bar> < 2 ^ nat (bitlen ?n)" by linarith
  then have 2: "\<bar>r\<bar> < 2 powi (bitlen ?n)" using b1 by (simp add: power_int_def)
  show ?thesis using 1 2 True by (simp add: ilog2_def)
next
  case False
  then have r1: "\<bar>r\<bar> < 1" and r0: "0 < \<bar>r\<bar>" using assms by simp_all
  let ?c = "\<lceil>1 / \<bar>r\<bar>\<rceil> - 1"
  have "1 < 1 / \<bar>r\<bar>" using r0 r1 by simp
  then have "2 \<le> \<lceil>1 / \<bar>r\<bar>\<rceil>" by linarith
  then have c: "0 < ?c" by simp
  have b1: "1 \<le> bitlen ?c" using c by (auto simp: bitlen_alt_def)
  from bitlen_bounds [OF c] have lo: "2 ^ nat (bitlen ?c - 1) \<le> ?c" and hi: "?c < 2 ^ nat (bitlen ?c)"
    by simp_all
  have clt: "real_of_int ?c < 1 / \<bar>r\<bar>" by simp linarith
  have c1: "1 / \<bar>r\<bar> \<le> real_of_int \<lceil>1 / \<bar>r\<bar>\<rceil>" by (rule le_of_int_ceiling)
  have "\<lceil>1 / \<bar>r\<bar>\<rceil> \<le> 2 ^ nat (bitlen ?c)" using hi by simp
  then have "real_of_int \<lceil>1 / \<bar>r\<bar>\<rceil> \<le> real_of_int (2 ^ nat (bitlen ?c))"
    by (simp only: of_int_le_iff)
  then have "real_of_int \<lceil>1 / \<bar>r\<bar>\<rceil> \<le> 2 ^ nat (bitlen ?c)" by simp
  with c1 have "1 / \<bar>r\<bar> \<le> 2 ^ nat (bitlen ?c)" by linarith
  then have "1 \<le> 2 ^ nat (bitlen ?c) * \<bar>r\<bar>" using r0 by (simp add: field_simps)
  then have "1 / 2 ^ nat (bitlen ?c) \<le> \<bar>r\<bar>" by (simp add: field_simps)
  then have 1: "2 powi (- bitlen ?c) \<le> \<bar>r\<bar>"
    using b1 by (simp add: power_int_def field_simps)
  have "real_of_int (2 ^ nat (bitlen ?c - 1)) \<le> real_of_int ?c" using lo by (simp only: of_int_le_iff)
  with clt have "2 ^ nat (bitlen ?c - 1) < 1 / \<bar>r\<bar>" by simp
  then have "2 ^ nat (bitlen ?c - 1) * \<bar>r\<bar> < 1" using r0 by (simp add: field_simps)
  then have "\<bar>r\<bar> < 1 / 2 ^ nat (bitlen ?c - 1)" by (simp add: field_simps)
  then have 2: "\<bar>r\<bar> < 2 powi (- bitlen ?c + 1)"
    using b1 r1 by (simp add: power_int_def field_simps)
  show ?thesis using 1 2 False by (simp add: ilog2_def)
qed

lemma ilog2_unique:
  assumes "2 powi e \<le> \<bar>r\<bar>" "\<bar>r\<bar> < 2 powi (e + 1)"
  shows "ilog2 r = e"
proof -
  have "r \<noteq> 0"
  proof
    assume "r = 0"
    then have "2 powi e \<le> (0 :: real)" using assms(1) by simp
    moreover have "0 < (2 :: real) powi e" by simp
    ultimately show False by linarith
  qed
  note b = ilog2_bounds [OF this]
  have "\<not> ilog2 r < e"
  proof
    assume "ilog2 r < e"
    then have "(2 :: real) powi (ilog2 r + 1) \<le> 2 powi e" by (intro power_int_increasing) simp_all
    with b assms show False by linarith
  qed
  moreover have "\<not> e < ilog2 r"
  proof
    assume "e < ilog2 r"
    then have "(2 :: real) powi (e + 1) \<le> 2 powi (ilog2 r)" by (intro power_int_increasing) simp_all
    with b assms show False by linarith
  qed
  ultimately show ?thesis by simp
qed

lemma ilog2_mono:
  assumes "r \<noteq> 0" "\<bar>r\<bar> \<le> \<bar>s\<bar>"
  shows "ilog2 r \<le> ilog2 s"
proof (rule ccontr)
  assume "\<not> ilog2 r \<le> ilog2 s"
  then have "(2 :: real) powi (ilog2 s + 1) \<le> 2 powi (ilog2 r)"
    by (intro power_int_increasing) simp_all
  moreover have "s \<noteq> 0" using assms by auto
  ultimately show False using ilog2_bounds [OF assms(1)] ilog2_bounds [OF \<open>s \<noteq> 0\<close>] assms(2)
    by linarith
qed


lemma ulp_pos: "0 < ulp r"
  by (simp add: ulp_def)

lemma ulp_minus: "ulp (- r) = ulp r"
  by (simp add: ulp_def ilog2_def)

lemma round64_minus: "round64 (- r) = - round64 r"
  by (simp add: round64_def ulp_minus rne_minus)

lemma round64_nonneg: "0 \<le> r \<Longrightarrow> 0 \<le> round64 r"
proof -
  assume "0 \<le> r"
  then have "0 \<le> r / ulp r" using ulp_pos [of r] by simp
  then have "0 \<le> rne (r / ulp r)" using rne_ge_int [of 0] by simp
  then show ?thesis using ulp_pos [of r] by (simp add: round64_def)
qed

lemma two_53: "2 ^ 53 * (2 :: real) powi (e - 52) = 2 powi (e + 1)"
proof -
  have "e + 1 = 53 + (e - 52)" by simp
  then have "(2 :: real) powi (e + 1) = 2 powi (53 + (e - 52))" by (simp only:)
  also have "\<dots> = 2 powi 53 * 2 powi (e - 52)" by (rule power_int_add) simp
  finally show ?thesis by simp
qed

lemma two_52: "2 ^ 52 * (2 :: real) powi (e - 52) = 2 powi e"
proof -
  have "e = 52 + (e - 52)" by simp
  then have "(2 :: real) powi e = 2 powi (52 + (e - 52))" by (simp only:)
  also have "\<dots> = 2 powi 52 * 2 powi (e - 52)" by (rule power_int_add) simp
  finally show ?thesis by simp
qed

text \<open>Below \<open>2^(e + 1)\<close> a value rounds to at most \<open>2^(e + 1)\<close>; from \<open>2^e\<close> on, to at least \<open>2^e\<close>.\<close>

lemma round64_upper:
  assumes "0 < r" "max (ilog2 r) (- 1022) = e"
  shows "round64 r \<le> 2 powi (e + 1)"
proof -
  have u: "ulp r = 2 powi (e - 52)" using assms(2) by (simp add: ulp_def)
  have "r < 2 powi (ilog2 r + 1)" using ilog2_bounds [of r] assms(1) by simp
  also have "\<dots> \<le> 2 powi (e + 1)" using assms(2) by (intro power_int_increasing) auto
  finally have "r / ulp r < 2 powi (e + 1) / 2 powi (e - 52)"
    unfolding u by (simp add: divide_strict_right_mono)
  also have "(2 :: real) powi (e + 1) / 2 powi (e - 52) = 2 powi 53"
    by (simp flip: power_int_diff)
  finally have "r / ulp r \<le> real_of_int (2 ^ 53)" by simp
  then have "rne (r / ulp r) \<le> 2 ^ 53" by (rule rne_le_int)
  then have "real_of_int (rne (r / ulp r)) \<le> real_of_int (2 ^ 53)" by (simp only: of_int_le_iff)
  then have "real_of_int (rne (r / ulp r)) \<le> 2 ^ 53" by simp
  then have "real_of_int (rne (r / ulp r)) * ulp r \<le> 2 ^ 53 * ulp r"
    using ulp_pos [of r] by (intro mult_right_mono) simp_all
  then have "round64 r \<le> 2 ^ 53 * 2 powi (e - 52)"
    using assms(1) by (simp add: round64_def u)
  also have "\<dots> = 2 powi (e + 1)" by (rule two_53)
  finally show ?thesis .
qed

lemma round64_lower:
  assumes "2 powi e \<le> r" "max (ilog2 r) (- 1022) = e"
  shows "2 powi e \<le> round64 r"
proof -
  have r: "0 < r" using assms(1) zero_less_power_int [of "2 :: real" e] by linarith
  have u: "ulp r = 2 powi (e - 52)" using assms(2) by (simp add: ulp_def)
  have "(2 :: real) powi e / 2 powi (e - 52) = 2 powi 52"
    by (simp flip: power_int_diff)
  moreover have "2 powi e / ulp r \<le> r / ulp r"
    using assms(1) ulp_pos [of r] by (simp add: divide_right_mono)
  ultimately have "real_of_int (2 ^ 52) \<le> r / ulp r" unfolding u by simp
  then have "2 ^ 52 \<le> rne (r / ulp r)" by (rule rne_ge_int)
  then have "real_of_int (2 ^ 52) \<le> real_of_int (rne (r / ulp r))" by (simp only: of_int_le_iff)
  then have "2 ^ 52 \<le> real_of_int (rne (r / ulp r))" by simp
  then have "2 ^ 52 * ulp r \<le> real_of_int (rne (r / ulp r)) * ulp r"
    using ulp_pos [of r] by (intro mult_right_mono) simp_all
  then have "2 ^ 52 * 2 powi (e - 52) \<le> round64 r"
    using r by (simp add: round64_def u)
  then show ?thesis by (simp only: two_52)
qed

lemma round64_mono_pos:
  assumes "0 < r" "r \<le> s"
  shows "round64 r \<le> round64 s"
proof -
  have s: "0 < s" using assms by simp
  let ?er = "max (ilog2 r) (- 1022)" and ?es = "max (ilog2 s) (- 1022)"
  have il: "ilog2 r \<le> ilog2 s" using assms by (intro ilog2_mono) simp_all
  then have le: "?er \<le> ?es" by simp
  show ?thesis
  proof (cases "?er = ?es")
    case True
    then have u: "ulp r = ulp s" by (simp add: ulp_def)
    have "r / ulp s \<le> s / ulp s" using assms(2) ulp_pos [of s] by (simp add: divide_right_mono)
    then have "rne (r / ulp s) \<le> rne (s / ulp s)" by (rule rne_mono)
    then have "real_of_int (rne (r / ulp s)) * ulp s \<le> real_of_int (rne (s / ulp s)) * ulp s"
      using ulp_pos [of s] by simp
    then show ?thesis using assms s by (simp add: round64_def u)
  next
    case False
    from False le have lt: "?er < ?es" by (rule order.not_eq_order_implies_strict)
    have "- 1022 < ?es" using lt max.cobounded2 [of "- 1022" "ilog2 r"] by linarith
    then have es: "?es = ilog2 s" by (simp add: max_def split: if_splits)
    have "2 powi ?es \<le> s" using ilog2_bounds [of s] s es by simp
    then have lower: "2 powi ?es \<le> round64 s" using refl by (rule round64_lower)
    have "round64 r \<le> 2 powi (?er + 1)" using assms(1) refl by (rule round64_upper)
    also have "\<dots> \<le> 2 powi ?es"
    proof (rule power_int_increasing)
      show "?er + 1 \<le> ?es" using lt by linarith
    qed simp
    finally show ?thesis using lower by linarith
  qed
qed

lemma round64_mono:
  assumes "r \<le> s"
  shows "round64 r \<le> round64 s"
proof -
  consider "0 < r" | "r = 0" | "r < 0" "0 \<le> s" | "r < 0" "s < 0" by linarith
  then show ?thesis
  proof cases
    case 1
    then show ?thesis using assms by (rule round64_mono_pos)
  next
    case 2
    then show ?thesis using assms round64_nonneg [of s] by (simp add: round64_def)
  next
    case 3
    have "0 \<le> round64 (- r)" using 3(1) by (intro round64_nonneg) simp
    then have "round64 r \<le> 0" using round64_minus [of r] by simp
    then show ?thesis using round64_nonneg [OF 3(2)] by linarith
  next
    case 4
    have "round64 (- s) \<le> round64 (- r)" using 4 assms by (intro round64_mono_pos) simp_all
    then show ?thesis by (simp add: round64_minus)
  qed
qed


text \<open>Integers of magnitude up to \<open>2^53\<close> are doubles: rounding leaves them as they are.\<close>

lemma round64_exact:
  assumes "r / ulp r = of_int k"
  shows "round64 r = r"
proof -
  have "r = of_int k * ulp r" using assms ulp_pos [of r] by (simp add: field_simps)
  then show ?thesis using assms by (simp add: round64_def rne_of_int)
qed

lemma round64_pos_int:
  assumes "0 < N" "N \<le> 2 ^ 53"
  shows "round64 (of_int N) = of_int N"
proof -
  let ?r = "real_of_int N" and ?e = "ilog2 (real_of_int N)"
  have r: "?r \<noteq> 0" "\<bar>?r\<bar> = ?r" using assms(1) by simp_all
  note b = ilog2_bounds [OF r(1), unfolded r(2)]
  have "1 \<le> ?r" using assms(1) by simp
  with b have "(2 :: real) powi 0 < 2 powi (?e + 1)" by simp
  then have "\<not> ?e + 1 \<le> 0" using power_int_increasing [of "?e + 1" 0 "2 :: real"] by auto
  then have e0: "0 \<le> ?e" by simp
  have "?r \<le> real_of_int (2 ^ 53)" using assms(2) by (simp only: of_int_le_iff)
  then have "?r \<le> 2 powi 53" by simp
  with b have "(2 :: real) powi ?e \<le> 2 powi 53" by linarith
  then have "\<not> 53 < ?e" using power_int_strict_increasing [of 53 ?e "2 :: real"] by auto
  then have e53: "?e \<le> 53" by simp
  have u: "ulp ?r = 2 powi (?e - 52)" using e0 by (simp add: ulp_def)
  show ?thesis
  proof (cases "?e \<le> 52")
    case True
    have "(2 :: real) powi (?e - 52) = 1 / 2 powi (52 - ?e)"
      using power_int_minus [of "2 :: real" "52 - ?e"] by (simp add: field_simps)
    also have "(2 :: real) powi (52 - ?e) = 2 ^ nat (52 - ?e)"
      using True by (simp add: power_int_def)
    finally have "?r / ulp ?r = of_int (N * 2 ^ nat (52 - ?e))" unfolding u by simp
    then show ?thesis by (rule round64_exact)
  next
    case False
    with e53 have e: "?e = 53" by simp
    have "(2 :: real) powi 53 \<le> ?r" using b e by simp
    with \<open>?r \<le> 2 powi 53\<close> have N: "?r = 2 ^ 53" by simp
    have "ulp ?r = 2" using u e by simp
    then have "?r / ulp ?r = of_int (2 ^ 52)" using N by simp
    then show ?thesis by (rule round64_exact)
  qed
qed

lemma round64_int:
  assumes "\<bar>N\<bar> \<le> 2 ^ 53"
  shows "round64 (of_int N) = of_int N"
proof -
  consider "0 < N" | "N = 0" | "N < 0" by linarith
  then show ?thesis
  proof cases
    case 1
    then show ?thesis using assms by (intro round64_pos_int) simp_all
  next
    case 2
    then show ?thesis by (simp add: round64_def)
  next
    case 3
    then have "round64 (of_int (- N)) = of_int (- N)" using assms by (intro round64_pos_int) simp_all
    then show ?thesis using round64_minus [of "of_int N"] by simp
  qed
qed

lemma round64_numeral_1000: "round64 1000 = 1000"
  using round64_int [of 1000] by simp

lemma round64_numeral_1000000: "round64 1000000 = 1000000"
  using round64_int [of 1000000] by simp

text \<open>The conversion, when the seconds times 1000 are exact.\<close>

lemma ts_to_ms_binary64:
  assumes "\<bar>tv_sec ts\<bar> \<le> 9007199254740" "0 \<le> tv_nsec ts" "tv_nsec ts < 1000000000"
  shows "ts_to_ms binary64 ts =
     round64 (of_int (tv_sec ts * 1000) + round64 (of_int (tv_nsec ts) / 1000000))"
proof -
  have s: "round64 (of_int (tv_sec ts)) = of_int (tv_sec ts)"
    using assms(1) by (intro round64_int) simp
  have m: "round64 (of_int (tv_sec ts * 1000)) = of_int (tv_sec ts * 1000)"
    using assms(1) by (intro round64_int) simp
  have n: "round64 (of_int (tv_nsec ts)) = of_int (tv_nsec ts)"
    using assms(2,3) by (intro round64_int) simp
  have "round64 (real_of_int (tv_sec ts) * 1000) = real_of_int (tv_sec ts) * 1000"
    using m by simp
  then show ?thesis
    by (simp add: ts_to_ms_def binary64_def s n round64_numeral_1000 round64_numeral_1000000)
qed

lemma millis_of_nanos:
  assumes "0 \<le> n" "n < 1000000000"
  shows "0 \<le> round64 (real_of_int n / 1000000) \<and> round64 (real_of_int n / 1000000) \<le> 1000"
proof -
  have "0 \<le> real_of_int n / 1000000" using assms(1) by simp
  then have 1: "0 \<le> round64 (real_of_int n / 1000000)" by (rule round64_nonneg)
  have "real_of_int n \<le> 1000000000" using assms(2) by simp
  then have "real_of_int n / 1000000 \<le> 1000" by simp
  then have "round64 (real_of_int n / 1000000) \<le> round64 1000" by (rule round64_mono)
  with 1 show ?thesis by (simp add: round64_numeral_1000)
qed

lemma ts_to_ms_mono:
  assumes "\<bar>tv_sec start\<bar> \<le> 9007199254740" "0 \<le> tv_nsec start" "tv_nsec start < 1000000000"
    and "\<bar>tv_sec finish\<bar> \<le> 9007199254740" "0 \<le> tv_nsec finish" "tv_nsec finish < 1000000000"
    and "tv_sec start < tv_sec finish \<or>
         tv_sec start = tv_sec finish \<and> tv_nsec start \<le> tv_nsec finish"
  shows "ts_to_ms binary64 start \<le> ts_to_ms binary64 finish"
proof -
  let ?bs = "round64 (real_of_int (tv_nsec start) / 1000000)"
  let ?bf = "round64 (real_of_int (tv_nsec finish) / 1000000)"
  note bs = millis_of_nanos [OF assms(2,3)] and bf = millis_of_nanos [OF assms(5,6)]
  have "real_of_int (tv_sec start * 1000) + ?bs \<le> real_of_int (tv_sec finish * 1000) + ?bf"
  proof (cases "tv_sec start < tv_sec finish")
    case True
    then have "tv_sec start * 1000 + 1000 \<le> tv_sec finish * 1000" by simp
    then have "real_of_int (tv_sec start * 1000 + 1000) \<le> real_of_int (tv_sec finish * 1000)"
      by (simp only: of_int_le_iff)
    then show ?thesis using bs bf by simp
  next
    case False
    with assms(7) have eq: "tv_sec start = tv_sec finish" and le: "tv_nsec start \<le> tv_nsec finish"
      by simp_all
    have "real_of_int (tv_nsec start) / 1000000 \<le> real_of_int (tv_nsec finish) / 1000000"
      using le by simp
    then have "?bs \<le> ?bf" by (rule round64_mono)
    then show ?thesis using eq by simp
  qed
  then have "round64 (real_of_int (tv_sec start * 1000) + ?bs) \<le>
      round64 (real_of_int (tv_sec finish * 1000) + ?bf)"
    by (rule round64_mono)
  then show ?thesis
    unfolding ts_to_ms_binary64 [OF assms(1-3)] ts_to_ms_binary64 [OF assms(4-6)] .
qed

section \<open>The claim about the sign of the wall time\<close>

text \<open>
  C8 (as amended). For two timestamps with nanoseconds in [0, 10^9) and seconds of
  magnitude at most 9007199254740 (so that the seconds times 1000 are a double), the
  second not earlier than the first: the reported duration, the double difference of
  the two conversions, is not negative.
\<close>

theorem wall_time_nonnegative:
  assumes "\<bar>tv_sec start\<bar> \<le> 9007199254740" "0 \<le> tv_nsec start" "tv_nsec start < 1000000000"
    and "\<bar>tv_sec finish\<bar> \<le> 9007199254740" "0 \<le> tv_nsec finish" "tv_nsec finish < 1000000000"
    and "tv_sec start < tv_sec finish \<or>
         tv_sec start = tv_sec finish \<and> tv_nsec start \<le> tv_nsec finish"
  shows "0 \<le> fsub binary64 (ts_to_ms binary64 finish) (ts_to_ms binary64 start)"
proof -
  have "0 \<le> ts_to_ms binary64 finish - ts_to_ms binary64 start"
    using ts_to_ms_mono [OF assms] by simp
  then have "0 \<le> round64 (ts_to_ms binary64 finish - ts_to_ms binary64 start)"
    by (rule round64_nonneg)
  then show ?thesis by (simp add: binary64_def)
qed

theorem wall_time_nonnegative_witness:
  "\<bar>tv_sec \<lparr>tv_sec = 12, tv_nsec = 999999999\<rparr>\<bar> \<le> 9007199254740 \<and>
   0 \<le> tv_nsec \<lparr>tv_sec = 12, tv_nsec = 999999999\<rparr> \<and>
   tv_nsec \<lparr>tv_sec = 12, tv_nsec = 999999999\<rparr> < 1000000000 \<and>
   \<bar>tv_sec \<lparr>tv_sec = 13, tv_nsec = 0\<rparr>\<bar> \<le> 9007199254740 \<and>
   0 \<le> tv_nsec \<lparr>tv_sec = 13, tv_nsec = 0\<rparr> \<and>
   tv_nsec \<lparr>tv_sec = 13, tv_nsec = 0\<rparr> < 1000000000 \<and>
   tv_sec \<lparr>tv_sec = 12, tv_nsec = 999999999\<rparr> < tv_sec \<lparr>tv_sec = 13, tv_nsec = 0\<rparr> \<and>
   0 \<le> fsub binary64 (ts_to_ms binary64 \<lparr>tv_sec = 13, tv_nsec = 0\<rparr>)
         (ts_to_ms binary64 \<lparr>tv_sec = 12, tv_nsec = 999999999\<rparr>)"
  using wall_time_nonnegative
    [of "\<lparr>tv_sec = 12, tv_nsec = 999999999\<rparr>" "\<lparr>tv_sec = 13, tv_nsec = 0\<rparr>"]
  by simp

text \<open>
  The claim as the spec states it fails where the seconds times 1000 are no longer
  exact. Both 5000000000000021000 and 5000000000000022000 round to
  5000000000000021504, doubles being 1024 apart there; adding 999.999999 to the first
  rounds up by 1024, adding 0 to the second changes nothing. The later timestamp
  converts to the smaller value and the duration is -1024 milliseconds.
\<close>

theorem wall_time_can_be_negative:
  "fsub binary64 (ts_to_ms binary64 \<lparr>tv_sec = 5000000000000022, tv_nsec = 0\<rparr>)
     (ts_to_ms binary64 \<lparr>tv_sec = 5000000000000021, tv_nsec = 999999999\<rparr>) = - 1024"
  by code_simp


end
